theory Spec2Isabelle
  imports Main
begin

section \<open>Strings\<close>

text \<open>
  The program is TypeScript (\<^verbatim>\<open>server/routes.ts\<close>). A JavaScript string is a sequence of
  UTF-16 code units; the model uses \<^typ>\<open>string\<close> and so covers the strings whose code
  units are below 256 (ASCII and Latin-1), one \<^typ>\<open>char\<close> per code unit.
  \<^verbatim>\<open>s.substring(0, n)\<close> is \<^term>\<open>take n s\<close>.
\<close>

text \<open>The character class \<^verbatim>\<open>[<>:"/\\|?*]\<close> of \<^verbatim>\<open>sanitizeFolderName\<close>.\<close>

definition is_forbidden :: "char \<Rightarrow> bool" where
  "is_forbidden c =
     (c \<in> set [CHR ''<'', CHR ''>'', CHR '':'', CHR 0x22, CHR ''/'', CHR 0x5C,
                CHR ''|'', CHR ''?'', CHR ''*''])"

text \<open>The class \<^verbatim>\<open>\s\<close> on code units below 256: TAB, LF, VT, FF, CR, space, NBSP.\<close>

definition is_space :: "char \<Rightarrow> bool" where
  "is_space c =
     (c \<in> set [CHR 0x09, CHR 0x0A, CHR 0x0B, CHR 0x0C, CHR 0x0D, CHR 0x20, CHR 0xA0])"

definition is_us :: "char \<Rightarrow> bool" where
  "is_us c = (c = CHR ''_'')"

text \<open>
  \<^verbatim>\<open>s.replace(/X+/g, r)\<close> for a character class \<open>X\<close>: every maximal run of characters
  of the class becomes the single character \<open>r\<close>.
\<close>

function replace_runs :: "(char \<Rightarrow> bool) \<Rightarrow> char \<Rightarrow> string \<Rightarrow> string" where
  "replace_runs P r [] = []"
| "replace_runs P r (c # cs) =
     (if P c then r # replace_runs P r (dropWhile P cs) else c # replace_runs P r cs)"
  by pat_completeness auto
termination
  by (relation "measure (\<lambda>(P, r, s). length s)")
     (auto simp: le_imp_less_Suc length_dropWhile_le)

text \<open>
  \<^verbatim>\<open>s.replace(/^_|_$/g, '')\<close>: one underscore at the start is removed, and then one
  underscore at the end of what is left.
\<close>

definition strip_lead :: "string \<Rightarrow> string" where
  "strip_lead s = (case s of [] \<Rightarrow> [] | c # cs \<Rightarrow> if is_us c then cs else s)"

definition strip_trail :: "string \<Rightarrow> string" where
  "strip_trail s = (if s \<noteq> [] \<and> is_us (last s) then butlast s else s)"

definition trim_us :: "string \<Rightarrow> string" where
  "trim_us s = strip_trail (strip_lead s)"

text \<open>The chain of replacements of \<^verbatim>\<open>sanitizeFolderName\<close>, before the truncation.\<close>

definition sanitize_core :: "string \<Rightarrow> string" where
  "sanitize_core name =
     trim_us (replace_runs is_us (CHR ''_'')
       (replace_runs is_space (CHR ''_'') (filter (\<lambda>c. \<not> is_forbidden c) name)))"

text \<open>
  \<^verbatim>\<open>sanitizeFolderName(name)\<close>: the chain, \<^verbatim>\<open>.substring(0, 80)\<close>, and
  \<^verbatim>\<open>|| 'Unknown'\<close> for the empty string.
\<close>

definition sanitizeFolderName :: "string \<Rightarrow> string" where
  "sanitizeFolderName name =
     (let s = take 80 (sanitize_core name) in if s = [] then ''Unknown'' else s)"

text \<open>\<^verbatim>\<open>a || b\<close> on strings: the empty string is falsy.\<close>

definition or_else :: "string \<Rightarrow> string \<Rightarrow> string" where
  "or_else a b = (if a = [] then b else a)"

text \<open>\<^verbatim>\<open>s.startsWith(t)\<close> and \<^verbatim>\<open>s.endsWith(t)\<close>.\<close>

definition startsWith :: "string \<Rightarrow> string \<Rightarrow> bool" where
  "startsWith s t = (take (length t) s = t)"

definition endsWith :: "string \<Rightarrow> string \<Rightarrow> bool" where
  "endsWith s t = (length t \<le> length s \<and> drop (length s - length t) s = t)"

text \<open>
  \<^verbatim>\<open>s.toLowerCase()\<close> on code units below 256: \<open>A\<close>..\<open>Z\<close> and the Latin-1 capitals
  U+00C0..U+00DE (without the multiplication sign U+00D7) move up by 32.
\<close>

definition to_lower_char :: "char \<Rightarrow> char" where
  "to_lower_char c =
     (let n = (of_char c :: nat)
      in if (65 \<le> n \<and> n \<le> 90) \<or> (192 \<le> n \<and> n \<le> 222 \<and> n \<noteq> 215)
         then char_of (n + 32) else c)"

definition toLowerCase :: "string \<Rightarrow> string" where
  "toLowerCase s = map to_lower_char s"

text \<open>
  The \<^verbatim>\<open>i\<close> flag of a regular expression whose letters are ASCII: only \<open>A\<close>..\<open>Z\<close>
  fold onto \<open>a\<close>..\<open>z\<close>.
\<close>

definition ascii_lower :: "char \<Rightarrow> char" where
  "ascii_lower c =
     (let n = (of_char c :: nat) in if 65 \<le> n \<and> n \<le> 90 then char_of (n + 32) else c)"

definition is_digit :: "char \<Rightarrow> bool" where
  "is_digit c = (c \<in> set ''0123456789'')"

text \<open>Decimal rendering of a number inside a template literal.\<close>

function show_nat :: "nat \<Rightarrow> string" where
  "show_nat n =
     (if n < 10 then [char_of (48 + n)] else show_nat (n div 10) @ [char_of (48 + n mod 10)])"
  by pat_completeness auto
termination
  by (relation "measure id") auto

definition show_int :: "int \<Rightarrow> string" where
  "show_int i = (if i < 0 then CHR ''-'' # show_nat (nat (- i)) else show_nat (nat i))"

text \<open>\<^verbatim>\<open>s.split('.').pop()\<close>: what follows the last dot (all of \<open>s\<close> without a dot).\<close>

definition after_last_dot :: "string \<Rightarrow> string" where
  "after_last_dot s = rev (takeWhile (\<lambda>c. c \<noteq> CHR ''.'') (rev s))"

text \<open>
  \<^verbatim>\<open>s.replace(/\.[^.]+$/, '')\<close>: the last dot and what follows it are removed when at
  least one character follows it.
\<close>

definition strip_ext :: "string \<Rightarrow> string" where
  "strip_ext s =
     (let e = after_last_dot s
      in if CHR ''.'' \<in> set s \<and> e \<noteq> [] then take (length s - length e - 1) s else s)"

text \<open>\<^verbatim>\<open>s.includes('.') ? '.' + s.split('.').pop() : ''\<close>.\<close>

definition dot_ext :: "string \<Rightarrow> string" where
  "dot_ext s = (if CHR ''.'' \<in> set s then CHR ''.'' # after_last_dot s else [])"

section \<open>Entity matching (\<^verbatim>\<open>POST /api/query/run\<close>)\<close>

text \<open>A row of the table \<^verbatim>\<open>email_mappings\<close>.\<close>

record email_mapping =
  mappingId :: string
  entityId :: string
  pattern :: string

text \<open>
  \<^verbatim>\<open>r.from.match(/<([^>]+)>/)?.[1]\<close>: the leftmost \<open><\<close> that is followed by at least one
  character other than \<open>>\<close> and then by \<open>>\<close>; the group is what stands between them.
\<close>

fun bracket_group :: "string \<Rightarrow> string option" where
  "bracket_group [] = None"
| "bracket_group (c # cs) =
     (if c = CHR ''<'' \<and> takeWhile (\<lambda>d. d \<noteq> CHR ''>'') cs \<noteq> []
         \<and> dropWhile (\<lambda>d. d \<noteq> CHR ''>'') cs \<noteq> []
      then Some (takeWhile (\<lambda>d. d \<noteq> CHR ''>'') cs)
      else bracket_group cs)"

definition fromAddress :: "string \<Rightarrow> string" where
  "fromAddress from_hdr = (case bracket_group from_hdr of Some a \<Rightarrow> a | None \<Rightarrow> from_hdr)"

text \<open>\<^verbatim>\<open>entityMap.get(id) || null\<close>: a missing or empty name is \<^verbatim>\<open>null\<close>.\<close>

definition name_or_null :: "string option \<Rightarrow> string option" where
  "name_or_null n = (case n of None \<Rightarrow> None | Some s \<Rightarrow> if s = [] then None else Some s)"

text \<open>
  The loop over \<^verbatim>\<open>allMappings\<close> of the search route, for one sender address. It returns
  \<^verbatim>\<open>(matchedEntityId, matchedEntityName)\<close>; \<^verbatim>\<open>break\<close> is the return at the first match.
\<close>

fun match_entity ::
  "string list \<Rightarrow> (string \<rightharpoonup> string) \<Rightarrow> email_mapping list \<Rightarrow> string
     \<Rightarrow> string option \<times> string option" where
  "match_entity entityIds entityMap [] addr = (None, None)"
| "match_entity entityIds entityMap (m # ms) addr =
     (if entityId m \<in> set entityIds then
        (let p = pattern m in
         if startsWith p ''*@'' then
           (let domain = drop 2 p in
            if endsWith addr (CHR ''@'' # domain) \<or> endsWith addr (CHR ''.'' # domain)
            then (Some (entityId m), name_or_null (entityMap (entityId m)))
            else match_entity entityIds entityMap ms addr)
         else if toLowerCase addr = toLowerCase p
         then (Some (entityId m), name_or_null (entityMap (entityId m)))
         else match_entity entityIds entityMap ms addr)
      else match_entity entityIds entityMap ms addr)"

section \<open>Dates\<close>

text \<open>
  A JavaScript \<^verbatim>\<open>Date\<close>: the Invalid Date, or a time value seen through the getters the
  program calls: the local calendar year, month (0 to 11) and day of the month, and the
  UTC rendering of \<^verbatim>\<open>toISOString()\<close>. How a string is parsed is the engine's business,
  so \<^verbatim>\<open>new Date(s)\<close> is a parameter \<open>parse\<close> of the model.
\<close>

datatype js_date = InvalidDate | ValidDate int nat nat string

datatype js_number = NaN | Num int

datatype js_exception = RangeError | StreamError

fun getFullYear :: "js_date \<Rightarrow> js_number" where
  "getFullYear InvalidDate = NaN"
| "getFullYear (ValidDate y m d s) = Num y"

fun getMonth :: "js_date \<Rightarrow> js_number" where
  "getMonth InvalidDate = NaN"
| "getMonth (ValidDate y m d s) = Num (int m)"

fun getDate :: "js_date \<Rightarrow> js_number" where
  "getDate InvalidDate = NaN"
| "getDate (ValidDate y m d s) = Num (int d)"

text \<open>\<^verbatim>\<open>toISOString()\<close> throws a RangeError on the Invalid Date.\<close>

fun toISOString :: "js_date \<Rightarrow> js_exception + string" where
  "toISOString InvalidDate = Inl RangeError"
| "toISOString (ValidDate y m d s) = Inr s"

fun js_plus1 :: "js_number \<Rightarrow> js_number" where
  "js_plus1 NaN = NaN"
| "js_plus1 (Num n) = Num (n + 1)"

fun js_String :: "js_number \<Rightarrow> string" where
  "js_String NaN = ''NaN''"
| "js_String (Num n) = show_int n"

definition padStart :: "nat \<Rightarrow> char \<Rightarrow> string \<Rightarrow> string" where
  "padStart n c s = replicate (n - length s) c @ s"

text \<open>
  The constructor \<^verbatim>\<open>new Date(dateStr)\<close> returns for every string: an unparsable one gives
  the Invalid Date, no exception.
\<close>

definition new_Date :: "(string \<Rightarrow> js_date) \<Rightarrow> string \<Rightarrow> js_exception + js_date" where
  "new_Date parse dateStr = Inr (parse dateStr)"

text \<open>
  \<^verbatim>\<open>formatDatePrefix\<close>: the \<^verbatim>\<open>try\<close> block builds the prefix from the getters; the
  \<^verbatim>\<open>catch\<close> block returns \<^verbatim>\<open>'unknown-date'\<close>.
\<close>

definition formatDatePrefix :: "(string \<Rightarrow> js_date) \<Rightarrow> string \<Rightarrow> string" where
  "formatDatePrefix parse dateStr =
     (case new_Date parse dateStr of
        Inl e \<Rightarrow> ''unknown-date''
      | Inr d \<Rightarrow>
          js_String (getFullYear d) @ ''-''
            @ padStart 2 (CHR ''0'') (js_String (js_plus1 (getMonth d))) @ ''-''
            @ padStart 2 (CHR ''0'') (js_String (getDate d)))"

section \<open>Attachment names\<close>

text \<open>
  The patterns of \<^verbatim>\<open>isGenericFilename\<close>, each on the lower-cased name without its
  extension. \<^verbatim>\<open>/^w_?\d*$/\<close> is \<open>opt_us_digits w\<close>, \<^verbatim>\<open>/^image\d*$/\<close> and
  \<^verbatim>\<open>/^att\d+$/\<close> have no underscore, \<^verbatim>\<open>/^unnamed/\<close> is a prefix test.
\<close>

definition opt_us_digits :: "string \<Rightarrow> string \<Rightarrow> bool" where
  "opt_us_digits w s =
     (startsWith s w \<and>
      (let r = drop (length w) s
       in list_all is_digit (case r of [] \<Rightarrow> [] | c # cs \<Rightarrow> if is_us c then cs else r)))"

definition isGenericFilename :: "string \<Rightarrow> bool" where
  "isGenericFilename filename =
     (let lower = toLowerCase filename;
          nameOnly = strip_ext lower
      in opt_us_digits ''inline'' nameOnly
         \<or> opt_us_digits ''attachment'' nameOnly
         \<or> nameOnly = ''noname''
         \<or> (startsWith nameOnly ''att'' \<and> drop 3 nameOnly \<noteq> []
              \<and> list_all is_digit (drop 3 nameOnly))
         \<or> startsWith nameOnly ''unnamed''
         \<or> (startsWith nameOnly ''image'' \<and> list_all is_digit (drop 5 nameOnly))
         \<or> opt_us_digits ''file'' nameOnly)"

section \<open>The bundle route (\<^verbatim>\<open>POST /api/download/bundle\<close>)\<close>

text \<open>The request body after \<^verbatim>\<open>bundleSchema\<close> has parsed it.\<close>

type_synonym bytes = "nat list"

record attachment_ref =
  att_id :: string
  att_filename :: string
  att_mimeType :: string
  att_size :: int

record item =
  messageId :: string
  accountIndex :: int
  subject :: string
  from_hdr :: string
  to_hdr :: string
  cc :: string
  date :: string
  bodyText :: string
  bodyHtml :: string
  entityName :: "string option"
  attachments :: "attachment_ref list"

text \<open>The interface \<^verbatim>\<open>DownloadedAttachment\<close>.\<close>

record downloaded_attachment =
  filename :: string
  mimeType :: string
  size_bytes :: nat
  buffer :: bytes
  isImage :: bool
  isPdf :: bool

text \<open>
  What pdfkit does with the bytes of an image attachment: \<^verbatim>\<open>doc.image\<close> draws the image;
  or it throws, which the \<^verbatim>\<open>catch\<close> around it turns into a notice on the page; or it
  returns and the document fails while it is written out, so that the stream emits
  \<^verbatim>\<open>'error'\<close> and the promise of \<^verbatim>\<open>generateBasePdf\<close> rejects.
\<close>

datatype image_outcome = Embedded | Refused | Corrupts

text \<open>
  What the route calls and does not compute itself:
  \<^item> \<open>download\<close>: \<^verbatim>\<open>downloadAttachment(messageId, attachmentId, accountIndex)\<close> of
    \<^verbatim>\<open>gmail.ts\<close>, \<open>None\<close> when the call throws;
  \<^item> \<open>parse\<close>: \<^verbatim>\<open>new Date(s)\<close>;
  \<^item> \<open>strip_html\<close>: \<^verbatim>\<open>stripHtmlTags\<close>, whose result only fills the body text;
  \<^item> \<open>draws\<close>: pdfkit on the bytes of an image attachment;
  \<^item> \<open>first_page\<close>: pdf-lib on the bytes of a source PDF: \<open>None\<close> when
    \<^verbatim>\<open>PDFLibDocument.load\<close> or \<^verbatim>\<open>copyPages\<close> throws, else the page count of the source;
  \<^item> \<open>reloads\<close>: whether pdf-lib loads and saves the base document that pdfkit wrote.
  pdfkit is taken to write the text of a page without an error, and pdf-lib to draw the
  caption of a page it has copied.
\<close>

record env =
  download :: "string \<Rightarrow> string \<Rightarrow> int \<Rightarrow> bytes option"
  parse :: "string \<Rightarrow> js_date"
  strip_html :: "string \<Rightarrow> string"
  draws :: "bytes \<Rightarrow> image_outcome"
  first_page :: "bytes \<Rightarrow> nat option"
  reloads :: "bool"

text \<open>
  The tests on the MIME type:
  \<^verbatim>\<open>/^image\/(png|jpe?g|gif|bmp|webp)$/i\<close> and \<^verbatim>\<open>/^application\/pdf$/i\<close>.
\<close>

definition is_image_mime :: "string \<Rightarrow> bool" where
  "is_image_mime m =
     (map ascii_lower m \<in> set [''image/png'', ''image/jpg'', ''image/jpeg'', ''image/gif'',
                                 ''image/bmp'', ''image/webp''])"

definition is_pdf_mime :: "string \<Rightarrow> bool" where
  "is_pdf_mime m = (map ascii_lower m = ''application/pdf'')"

text \<open>
  The name an attachment gets inside the \<^verbatim>\<open>try\<close> block of the download loop: a generic
  file name is replaced by the sanitized subject, cut to 60 characters, plus the extension.
\<close>

definition attName :: "item \<Rightarrow> attachment_ref \<Rightarrow> string" where
  "attName it att =
     (if isGenericFilename (att_filename att) \<and> subject it \<noteq> []
      then take 60 (sanitizeFolderName (subject it)) @ dot_ext (att_filename att)
      else att_filename att)"

definition downloaded :: "item \<Rightarrow> attachment_ref \<Rightarrow> bytes \<Rightarrow> downloaded_attachment" where
  "downloaded it att buf =
     \<lparr>filename = attName it att, mimeType = att_mimeType att, size_bytes = length buf,
      buffer = buf, isImage = is_image_mime (att_mimeType att),
      isPdf = is_pdf_mime (att_mimeType att)\<rparr>"

text \<open>
  The loop \<^verbatim>\<open>for (const att of item.attachments)\<close>: \<open>acc\<close> is
  \<^verbatim>\<open>downloadedAttachments\<close>; a download that throws is logged and the loop goes on.
\<close>

fun download_loop ::
  "env \<Rightarrow> item \<Rightarrow> attachment_ref list \<Rightarrow> downloaded_attachment list
     \<Rightarrow> downloaded_attachment list" where
  "download_loop e it [] acc = acc"
| "download_loop e it (att # atts) acc =
     (case download e (messageId it) (att_id att) (accountIndex it) of
        None \<Rightarrow> download_loop e it atts acc
      | Some buf \<Rightarrow> download_loop e it atts (acc @ [downloaded it att buf]))"

subsection \<open>The combined PDF\<close>

text \<open>
  A PDF is modelled by what is written into it, in order:
  \<^item> the metadata page: the title, the labelled header fields that are not empty, and one
    row per attachment (file name, size and badge, which the row's text joins; the size
    is kept as the number of bytes, \<^verbatim>\<open>formatBytes\<close> only renders it);
  \<^item> the body, starting on a page of its own;
  \<^item> one page per image attachment: the image, or the notice that it could not be embedded;
  \<^item> one page per PDF attachment that pdf-lib could copy: the first page of the source
    with the caption \<^verbatim>\<open>Preview: <filename> (page 1 of <n>)\<close>.
\<close>

record listing_row =
  row_filename :: string
  row_size :: nat
  row_badge :: string

datatype pdf_page =
    MetadataPage string "(string \<times> string) list" "listing_row list"
  | BodyPage string
  | ImagePage string bool
  | SplicedPage string nat

type_synonym pdf_doc = "pdf_page list"

definition badge :: "downloaded_attachment \<Rightarrow> string" where
  "badge att =
     (if isImage att then ''[image preview below]''
      else if isPdf att then ''[PDF preview below]'' else ''[separate file]'')"

definition listing :: "downloaded_attachment list \<Rightarrow> listing_row list" where
  "listing atts =
     map (\<lambda>att. \<lparr>row_filename = filename att, row_size = size_bytes att,
                  row_badge = badge att\<rparr>) atts"

definition entity_or_unknown :: "string option \<Rightarrow> string" where
  "entity_or_unknown n = (case n of None \<Rightarrow> ''Unknown'' | Some s \<Rightarrow> or_else s ''Unknown'')"

text \<open>
  \<^verbatim>\<open>generateBasePdf\<close> returns a promise: it resolves with the document when pdfkit ends
  the stream, and rejects when the stream emits \<^verbatim>\<open>'error'\<close>.
\<close>

definition generateBasePdf ::
  "env \<Rightarrow> item \<Rightarrow> downloaded_attachment list \<Rightarrow> js_exception + pdf_doc" where
  "generateBasePdf e it atts =
     (let hdrs = [(''From'', from_hdr it), (''To'', to_hdr it), (''CC'', cc it),
                  (''Date'', date it), (''Entity'', entity_or_unknown (entityName it))];
          bodyContent = or_else (or_else (bodyText it) (strip_html e (bodyHtml it)))
                          ''(empty body)'';
          imageAttachments = filter isImage atts
      in if list_ex (\<lambda>img. draws e (buffer img) = Corrupts) imageAttachments
         then Inl StreamError
         else Inr
           ([MetadataPage (or_else (subject it) ''(no subject)'')
               (filter (\<lambda>(label, v). v \<noteq> []) hdrs)
               (if length atts > 0 then listing atts else []),
             BodyPage bodyContent]
            @ map (\<lambda>img. ImagePage (filename img) (draws e (buffer img) = Embedded))
                imageAttachments))"

text \<open>
  The inner \<^verbatim>\<open>try\<close> of \<^verbatim>\<open>generateCombinedPdf\<close>, for one PDF attachment: a source that
  pdf-lib cannot load or copy adds nothing.
\<close>

definition splice :: "env \<Rightarrow> downloaded_attachment \<Rightarrow> pdf_page list" where
  "splice e att =
     (case first_page e (buffer att) of
        None \<Rightarrow> []
      | Some totalPages \<Rightarrow> [SplicedPage (filename att) totalPages])"

text \<open>
  \<^verbatim>\<open>generateCombinedPdf\<close> awaits the base document outside its \<^verbatim>\<open>try\<close> blocks: a
  rejection of \<^verbatim>\<open>generateBasePdf\<close> is its own rejection. The outer \<^verbatim>\<open>try\<close> returns
  the base document when pdf-lib cannot reload or save it.
\<close>

definition generateCombinedPdf ::
  "env \<Rightarrow> item \<Rightarrow> downloaded_attachment list \<Rightarrow> js_exception + pdf_doc" where
  "generateCombinedPdf e it atts =
     (case generateBasePdf e it atts of
        Inl ex \<Rightarrow> Inl ex
      | Inr baseBuffer \<Rightarrow>
          (let pdfAttachments = filter isPdf atts
           in if length pdfAttachments = 0 then Inr baseBuffer
              else if reloads e then Inr (baseBuffer @ concat (map (splice e) pdfAttachments))
              else Inr baseBuffer))"

subsection \<open>The JSON record\<close>

datatype json =
    JString string
  | JNumber nat
  | JBool bool
  | JArray "json list"
  | JObject "(string \<times> json) list"

definition dateISO :: "env \<Rightarrow> item \<Rightarrow> string" where
  "dateISO e it =
     (case new_Date (parse e) (date it) of
        Inl ex \<Rightarrow> ''''
      | Inr d \<Rightarrow> (case toISOString d of Inl ex \<Rightarrow> '''' | Inr s \<Rightarrow> s))"

text \<open>The arrow function mapped over \<^verbatim>\<open>attachments\<close> in \<^verbatim>\<open>generateJsonRecord\<close>.\<close>

definition attachment_json :: "downloaded_attachment \<Rightarrow> json" where
  "attachment_json a =
     JObject
       [(''filename'', JString (filename a)),
        (''mimeType'', JString (mimeType a)),
        (''size'', JNumber (size_bytes a)),
        (''previewInCombinedPdf'', JBool (isImage a \<or> isPdf a))]"

definition generateJsonRecord :: "env \<Rightarrow> item \<Rightarrow> downloaded_attachment list \<Rightarrow> json" where
  "generateJsonRecord e it atts =
     JObject
       [(''messageId'', JString (messageId it)),
        (''subject'', JString (subject it)),
        (''from'', JString (from_hdr it)),
        (''to'', JString (to_hdr it)),
        (''cc'', JString (cc it)),
        (''date'', JString (date it)),
        (''dateISO'', JString (dateISO e it)),
        (''entity'', JString (entity_or_unknown (entityName it))),
        (''bodyText'', JString (or_else (or_else (bodyText it) (strip_html e (bodyHtml it))) '''')),
        (''attachments'', JArray (map attachment_json atts))]"

subsection \<open>The archive\<close>

datatype content = Pdf pdf_doc | Json json | Raw bytes

type_synonym entry = "string \<times> content"

text \<open>The names computed at the head of the loop body.\<close>

definition entityFolder :: "item \<Rightarrow> string" where
  "entityFolder it = sanitizeFolderName (entity_or_unknown (entityName it))"

definition datePrefix :: "env \<Rightarrow> item \<Rightarrow> string" where
  "datePrefix e it = formatDatePrefix (parse e) (date it)"

definition subjectSlug :: "item \<Rightarrow> string" where
  "subjectSlug it = take 50 (sanitizeFolderName (or_else (subject it) ''No_Subject''))"

definition fileKey :: "env \<Rightarrow> item \<Rightarrow> string" where
  "fileKey e it = entityFolder it @ ''/'' @ datePrefix e it @ ''_'' @ subjectSlug it"

text \<open>
  The update of \<^verbatim>\<open>fileCounters\<close>: a key seen before is incremented and its new value is
  appended to the base name; a new key is stored with 0 and the base name stays.
\<close>

definition count_key ::
  "(string \<rightharpoonup> nat) \<Rightarrow> string \<Rightarrow> string \<Rightarrow> (string \<rightharpoonup> nat) \<times> string" where
  "count_key fileCounters key baseFilename =
     (case fileCounters key of
        Some n \<Rightarrow> (fileCounters(key \<mapsto> Suc n), baseFilename @ ''_'' @ show_nat (Suc n))
      | None \<Rightarrow> (fileCounters(key \<mapsto> 0), baseFilename))"

text \<open>The entry of one downloaded attachment, written after the combined pair.\<close>

definition raw_entry :: "env \<Rightarrow> item \<Rightarrow> downloaded_attachment \<Rightarrow> entry" where
  "raw_entry e it att =
     (let attSlug = take 60 (sanitizeFolderName (strip_ext (filename att)));
          attExt = dot_ext (filename att)
      in (entityFolder it @ ''/'' @ datePrefix e it @ ''_'' @ attSlug @ attExt,
          Raw (buffer att)))"

text \<open>
  One turn of \<^verbatim>\<open>for (const item of items)\<close>: the new counters and the entries appended
  to the archive, in order. The combined PDF is awaited before anything of the item is
  appended; when it rejects, the exception leaves the loop.
\<close>

definition bundle_item ::
  "env \<Rightarrow> (string \<rightharpoonup> nat) \<Rightarrow> item
     \<Rightarrow> js_exception + ((string \<rightharpoonup> nat) \<times> entry list)" where
  "bundle_item e fileCounters it =
     (let (fileCounters', baseFilename) =
            count_key fileCounters (fileKey e it) (datePrefix e it @ ''_'' @ subjectSlug it);
          downloadedAttachments = download_loop e it (attachments it) []
      in case generateCombinedPdf e it downloadedAttachments of
           Inl ex \<Rightarrow> Inl ex
         | Inr combinedPdf \<Rightarrow>
             Inr (fileCounters',
                  [(entityFolder it @ ''/'' @ baseFilename @ ''_combined.pdf'', Pdf combinedPdf),
                   (entityFolder it @ ''/'' @ baseFilename @ ''_combined.json'',
                      Json (generateJsonRecord e it downloadedAttachments))]
                  @ map (raw_entry e it) downloadedAttachments))"

text \<open>
  What the handler answers on a parsed body:
  \<^item> status 400 for an empty list of items;
  \<^item> the finalized archive;
  \<^item> the \<^verbatim>\<open>catch\<close> block around the build: an exception that leaves the loop is logged,
    \<^verbatim>\<open>archive.finalize()\<close> is not reached, and the response is status 500 when no
    header has been sent yet and a stream without end otherwise. The model keeps the
    entries appended before the exception.
\<close>

datatype http_error = BadRequest string | BuildFailed "entry list"

text \<open>
  The loop over the items, with \<^verbatim>\<open>fileCounters\<close> and the archive written so far as its
  state; after the last item comes \<^verbatim>\<open>archive.finalize()\<close>.
\<close>

fun bundle_loop ::
  "env \<Rightarrow> (string \<rightharpoonup> nat) \<Rightarrow> entry list \<Rightarrow> item list \<Rightarrow> http_error + entry list" where
  "bundle_loop e fileCounters archive [] = Inr archive"
| "bundle_loop e fileCounters archive (it # items) =
     (case bundle_item e fileCounters it of
        Inl ex \<Rightarrow> Inl (BuildFailed archive)
      | Inr (fileCounters', entries) \<Rightarrow> bundle_loop e fileCounters' (archive @ entries) items)"

definition download_bundle :: "env \<Rightarrow> item list \<Rightarrow> http_error + entry list" where
  "download_bundle e items =
     (if length items = 0 then Inl (BadRequest ''No items to download'')
      else bundle_loop e Map.empty [] items)"

section \<open>Example inputs\<close>

text \<open>
  An environment in which the attachments \<open>a1\<close>, \<open>a2\<close>, \<open>a4\<close> and \<open>a5\<close> download and
  every other download throws, the bytes of \<open>a1\<close> are a PDF of 7 pages and no other bytes
  parse as a PDF, the bytes of \<open>a5\<close> are an image that makes pdfkit fail while it writes
  the document, and \<open>2024-03-15\<close> is the one string that parses as a date.
\<close>

definition example_env :: env where
  "example_env =
     \<lparr>download = (\<lambda>mid aid acc.
         if aid = ''a1'' then Some [37, 80, 68, 70]
         else if aid = ''a2'' then Some [80, 75]
         else if aid = ''a4'' then Some [0]
         else if aid = ''a5'' then Some [137, 80, 78, 71]
         else None),
      parse = (\<lambda>s. if s = ''2024-03-15''
                     then ValidDate 2024 2 15 ''2024-03-15T00:00:00.000Z'' else InvalidDate),
      strip_html = (\<lambda>s. s),
      draws = (\<lambda>b. if b = [137, 80, 78, 71] then Corrupts else Embedded),
      first_page = (\<lambda>b. if b = [37, 80, 68, 70] then Some 7 else None),
      reloads = True\<rparr>"

definition invoice_pdf :: attachment_ref where
  "invoice_pdf =
     \<lparr>att_id = ''a1'', att_filename = ''invoice.pdf'', att_mimeType = ''application/pdf'',
      att_size = 4\<rparr>"

definition figures_xlsx :: attachment_ref where
  "figures_xlsx =
     \<lparr>att_id = ''a2'', att_filename = ''figures.xlsx'',
      att_mimeType = ''application/vnd.openxmlformats-officedocument.spreadsheetml.sheet'',
      att_size = 2\<rparr>"

definition scan_png :: attachment_ref where
  "scan_png =
     \<lparr>att_id = ''a3'', att_filename = ''scan.png'', att_mimeType = ''image/png'',
      att_size = 9\<rparr>"

definition broken_pdf :: attachment_ref where
  "broken_pdf =
     \<lparr>att_id = ''a4'', att_filename = ''broken.pdf'', att_mimeType = ''application/pdf'',
      att_size = 1\<rparr>"

definition acme_item :: "attachment_ref list \<Rightarrow> item" where
  "acme_item atts =
     \<lparr>messageId = ''m1'', accountIndex = 1, subject = ''March Invoice'',
      from_hdr = ''Billing <billing@acme.com>'', to_hdr = ''me@example.org'', cc = '''',
      date = ''2024-03-15'', bodyText = ''Invoice attached.'', bodyHtml = '''',
      entityName = Some ''Acme Corp'', attachments = atts\<rparr>"

definition inline_pdf :: attachment_ref where
  "inline_pdf =
     \<lparr>att_id = ''a1'', att_filename = ''inline_1.pdf'', att_mimeType = ''application/pdf'',
      att_size = 4\<rparr>"

definition long_subject_item :: item where
  "long_subject_item = (acme_item [inline_pdf])\<lparr>subject := replicate 61 (CHR ''a'')\<rparr>"

definition acme_mappings :: "string \<Rightarrow> email_mapping list" where
  "acme_mappings p = [\<lparr>mappingId = ''k1'', entityId = ''e1'', pattern = p\<rparr>]"

definition corrupt_png :: attachment_ref where
  "corrupt_png =
     \<lparr>att_id = ''a5'', att_filename = ''logo.png'', att_mimeType = ''image/png'',
      att_size = 4\<rparr>"

section \<open>Predicates used in the proofs\<close>

text \<open>No two underscores stand side by side.\<close>

fun no_adj :: "string \<Rightarrow> bool" where
  "no_adj [] = True"
| "no_adj [c] = True"
| "no_adj (c # d # cs) = (\<not> (is_us c \<and> is_us d) \<and> no_adj (d # cs))"

text \<open>What the chain of replacements of \<^verbatim>\<open>sanitizeFolderName\<close> establishes.\<close>

definition clean :: "string \<Rightarrow> bool" where
  "clean s = ((\<forall>c\<in>set s. \<not> is_forbidden c \<and> \<not> is_space c) \<and> no_adj s)"

text \<open>Reading a JSON object: its keys in order, and the value of a key.\<close>

fun json_keys :: "json \<Rightarrow> string list" where
  "json_keys (JObject kvs) = map fst kvs"
| "json_keys j = []"

fun json_field :: "string \<Rightarrow> json \<Rightarrow> json option" where
  "json_field k (JObject kvs) = map_of kvs k"
| "json_field k j = None"

text \<open>The attachment rows on the first page of a PDF.\<close>

fun metadata_rows :: "pdf_doc \<Rightarrow> listing_row list" where
  "metadata_rows (MetadataPage title hdrs rows # pages) = rows"
| "metadata_rows pages = []"

text \<open>
  The attachments of an item whose download succeeds, each with its bytes, in the order of
  the request; and the same list as the download loop records it.
\<close>

definition succeeded :: "env \<Rightarrow> item \<Rightarrow> (attachment_ref \<times> bytes) list" where
  "succeeded e it =
     List.map_filter
       (\<lambda>att. map_option (Pair att)
                (download e (messageId it) (att_id att) (accountIndex it)))
       (attachments it)"

definition fetched :: "env \<Rightarrow> item \<Rightarrow> downloaded_attachment list" where
  "fetched e it = map (\<lambda>(att, buf). downloaded it att buf) (succeeded e it)"

text \<open>How many items of a list have the file key of a given item.\<close>

definition same_key_count :: "env \<Rightarrow> item list \<Rightarrow> item \<Rightarrow> nat" where
  "same_key_count e items it = length (filter (\<lambda>j. fileKey e j = fileKey e it) items)"

text \<open>The counters after the loop has run over a list of items.\<close>

fun counters_after :: "env \<Rightarrow> (string \<rightharpoonup> nat) \<Rightarrow> item list \<Rightarrow> (string \<rightharpoonup> nat)" where
  "counters_after e fileCounters [] = fileCounters"
| "counters_after e fileCounters (it # items) =
     counters_after e
       (fst (count_key fileCounters (fileKey e it) (datePrefix e it @ ''_'' @ subjectSlug it)))
       items"

text \<open>
  No downloaded image of the item makes pdfkit fail while it writes the document: the
  promise of \<^verbatim>\<open>generateBasePdf\<close> resolves.
\<close>

definition builds :: "env \<Rightarrow> item \<Rightarrow> bool" where
  "builds e it =
     (\<not> list_ex (\<lambda>(att, buf). is_image_mime (att_mimeType att) \<and> draws e buf = Corrupts)
          (succeeded e it))"

text \<open>
  The pages of the base document and of the combined PDF of an item, when pdfkit writes
  the base document to its end.
\<close>

definition base_doc :: "env \<Rightarrow> item \<Rightarrow> downloaded_attachment list \<Rightarrow> pdf_doc" where
  "base_doc e it atts =
     [MetadataPage (or_else (subject it) ''(no subject)'')
        (filter (\<lambda>(label, v). v \<noteq> [])
           [(''From'', from_hdr it), (''To'', to_hdr it), (''CC'', cc it),
            (''Date'', date it), (''Entity'', entity_or_unknown (entityName it))])
        (listing atts),
      BodyPage (or_else (or_else (bodyText it) (strip_html e (bodyHtml it))) ''(empty body)'')]
     @ map (\<lambda>img. ImagePage (filename img) (draws e (buffer img) = Embedded))
         (filter isImage atts)"

definition combined_doc :: "env \<Rightarrow> item \<Rightarrow> downloaded_attachment list \<Rightarrow> pdf_doc" where
  "combined_doc e it atts =
     base_doc e it atts
       @ (if reloads e
          then map (\<lambda>a. SplicedPage (filename a) (the (first_page e (buffer a))))
                 (filter (\<lambda>a. isPdf a \<and> first_page e (buffer a) \<noteq> None) atts)
          else [])"

text \<open>
  The entries of an item under the counters \<open>fc\<close>, and the archive of a list of items,
  when every combined PDF is built.
\<close>

definition unit_entries :: "env \<Rightarrow> (string \<rightharpoonup> nat) \<Rightarrow> item \<Rightarrow> entry list" where
  "unit_entries e fc it =
     [(entityFolder it @ ''/''
         @ snd (count_key fc (fileKey e it) (datePrefix e it @ ''_'' @ subjectSlug it))
         @ ''_combined.pdf'',
       Pdf (combined_doc e it (fetched e it))),
      (entityFolder it @ ''/''
         @ snd (count_key fc (fileKey e it) (datePrefix e it @ ''_'' @ subjectSlug it))
         @ ''_combined.json'',
       Json (generateJsonRecord e it (fetched e it)))]
     @ map (raw_entry e it) (fetched e it)"

fun archive_of :: "env \<Rightarrow> (string \<rightharpoonup> nat) \<Rightarrow> item list \<Rightarrow> entry list" where
  "archive_of e fc [] = []"
| "archive_of e fc (it # items) =
     unit_entries e fc it @ archive_of e (counters_after e fc [it]) items"

text \<open>The entry names of a finalized archive; \<open>None\<close> for a response that is none.\<close>

definition archive_names :: "http_error + entry list \<Rightarrow> string list option" where
  "archive_names r = (case r of Inl err \<Rightarrow> None | Inr archive \<Rightarrow> Some (map fst archive))"

section \<open>Sanitizing names\<close>

lemma replace_runs_none: "\<forall>c\<in>set s. \<not> P c \<Longrightarrow> replace_runs P r s = s"
  by (induction s) auto

lemma replace_runs_set: "set (replace_runs P r s) \<subseteq> insert r {c \<in> set s. \<not> P c}"
proof (induction P r s rule: replace_runs.induct)
  case (1 P r)
  then show ?case by simp
next
  case (2 P r c cs)
  have "set (dropWhile P cs) \<subseteq> set cs" by (simp add: set_dropWhileD subsetI)
  with 2 show ?case by (auto split: if_splits)
qed

lemma replace_runs_hd:
  "s = [] \<or> \<not> P (hd s) \<Longrightarrow> replace_runs P r s = [] \<or> hd (replace_runs P r s) = hd s \<and> s \<noteq> []"
  by (cases s) auto

lemma dropWhile_hd: "dropWhile P s = [] \<or> \<not> P (hd (dropWhile P s))"
  using hd_dropWhile by blast

lemma no_adj_Cons: "no_adj (c # s) = ((s = [] \<or> \<not> (is_us c \<and> is_us (hd s))) \<and> no_adj s)"
  by (cases s) auto

lemma no_adj_replace_runs: "no_adj (replace_runs is_us (CHR ''_'') s)"
proof (induction is_us "CHR ''_''" s rule: replace_runs.induct)
  case 1
  then show ?case by simp
next
  case (2 c cs)
  let ?d = "dropWhile is_us cs"
  let ?r = "replace_runs is_us (CHR ''_'') ?d"
  show ?case
  proof (cases "is_us c")
    case True
    have IH: "no_adj ?r" using 2(1)[OF True] .
    have "?r = [] \<or> \<not> is_us (hd ?r)"
    proof (cases ?d)
      case Nil
      then show ?thesis by (simp del: dropWhile_eq_Nil_conv)
    next
      case (Cons e es)
      then have "\<not> is_us e" using hd_dropWhile[of is_us cs] by auto
      then show ?thesis using Cons by (simp del: dropWhile_eq_Nil_conv)
    qed
    then show ?thesis using True IH by (simp add: no_adj_Cons)
  next
    case False
    have IH: "no_adj (replace_runs is_us (CHR ''_'') cs)" using 2(2)[OF False] .
    show ?thesis using False IH by (simp add: no_adj_Cons)
  qed
qed

lemma replace_runs_no_adj: "no_adj s \<Longrightarrow> replace_runs is_us (CHR ''_'') s = s"
proof (induction s rule: no_adj.induct)
  case 1
  then show ?case by simp
next
  case (2 c)
  then show ?case by (simp add: is_us_def)
next
  case (3 c d cs)
  then show ?case by (auto simp: is_us_def)
qed

lemma no_adj_take: "no_adj s \<Longrightarrow> no_adj (take n s)"
proof (induction s arbitrary: n)
  case Nil
  then show ?case by simp
next
  case (Cons c s)
  show ?case
  proof (cases n)
    case 0
    then show ?thesis by simp
  next
    case (Suc m)
    have "no_adj (take m s)" using Cons by (simp add: no_adj_Cons)
    moreover have "take m s = [] \<or> \<not> (is_us c \<and> is_us (hd (take m s)))"
      using Cons.prems by (cases m; cases s) (auto simp: no_adj_Cons)
    ultimately show ?thesis using Suc by (simp add: no_adj_Cons)
  qed
qed

lemma no_adj_butlast: "no_adj s \<Longrightarrow> no_adj (butlast s)"
  using no_adj_take[of s "length s - 1"] by (simp add: butlast_conv_take)


lemma strip_lead_props:
  assumes "no_adj s"
  shows "no_adj (strip_lead s)"
    and "strip_lead s = [] \<or> \<not> is_us (hd (strip_lead s))"
    and "set (strip_lead s) \<subseteq> set s"
  using assms by (cases s; auto simp: strip_lead_def no_adj_Cons)+

lemma no_adj_last:
  "no_adj s \<Longrightarrow> 2 \<le> length s \<Longrightarrow> is_us (last s) \<Longrightarrow> \<not> is_us (last (butlast s))"
proof (induction s rule: no_adj.induct)
  case 1
  then show ?case by simp
next
  case (2 c)
  then show ?case by simp
next
  case (3 c d cs)
  then show ?case by (cases cs) auto
qed

lemma strip_trail_props:
  assumes "no_adj s" and "s = [] \<or> \<not> is_us (hd s)"
  shows "no_adj (strip_trail s)"
    and "strip_trail s = [] \<or> \<not> is_us (hd (strip_trail s)) \<and> \<not> is_us (last (strip_trail s))"
    and "set (strip_trail s) \<subseteq> set s"
proof -
  show "no_adj (strip_trail s)"
    using assms(1) by (simp add: strip_trail_def no_adj_butlast)
  show "set (strip_trail s) \<subseteq> set s"
    by (auto simp: strip_trail_def dest: in_set_butlastD)
  show "strip_trail s = [] \<or> \<not> is_us (hd (strip_trail s)) \<and> \<not> is_us (last (strip_trail s))"
  proof (cases "s \<noteq> [] \<and> is_us (last s)")
    case False
    then show ?thesis using assms(2) by (auto simp: strip_trail_def)
  next
    case True
    then have len: "2 \<le> length s" using assms(2) by (cases s; cases "tl s") auto
    then have "butlast s \<noteq> []" by (cases s; cases "tl s") auto
    moreover have "hd (butlast s) = hd s" using len by (cases s; cases "tl s") auto
    moreover have "\<not> is_us (last (butlast s))" using no_adj_last[OF assms(1) len] True by simp
    ultimately show ?thesis using True assms(2) by (simp add: strip_trail_def)
  qed
qed

lemma trim_us_props:
  assumes "no_adj s"
  shows "no_adj (trim_us s)"
    and "trim_us s = [] \<or> \<not> is_us (hd (trim_us s)) \<and> \<not> is_us (last (trim_us s))"
    and "set (trim_us s) \<subseteq> set s"
proof -
  note L = strip_lead_props[OF assms]
  note T = strip_trail_props[OF L(1) L(2)]
  show "no_adj (trim_us s)" using T(1) by (simp add: trim_us_def)
  show "trim_us s = [] \<or> \<not> is_us (hd (trim_us s)) \<and> \<not> is_us (last (trim_us s))"
    using T(2) by (simp add: trim_us_def)
  show "set (trim_us s) \<subseteq> set s" using T(3) L(3) by (auto simp: trim_us_def)
qed

lemma trim_us_id:
  "s \<noteq> [] \<Longrightarrow> \<not> is_us (hd s) \<Longrightarrow> \<not> is_us (last s) \<Longrightarrow> trim_us s = s"
  by (cases s) (auto simp: trim_us_def strip_lead_def strip_trail_def)

lemma replace_runs_mem:
  "c \<in> set (replace_runs P r s) \<Longrightarrow> c = r \<or> c \<in> set s \<and> \<not> P c"
  using replace_runs_set[of P r s] by auto

lemma sanitize_core_clean: "clean (sanitize_core x)"
  and sanitize_core_ends:
    "sanitize_core x = [] \<or> \<not> is_us (hd (sanitize_core x)) \<and> \<not> is_us (last (sanitize_core x))"
proof -
  let ?f = "filter (\<lambda>c. \<not> is_forbidden c) x"
  let ?w = "replace_runs is_space (CHR ''_'') ?f"
  let ?u = "replace_runs is_us (CHR ''_'') ?w"
  have us: "\<not> is_forbidden (CHR ''_'')" "\<not> is_space (CHR ''_'')"
    by (simp_all add: is_forbidden_def is_space_def)
  have w: "\<not> is_forbidden c \<and> \<not> is_space c" if "c \<in> set ?w" for c
  proof -
    from replace_runs_mem[OF that] have "c = CHR ''_'' \<or> c \<in> set ?f \<and> \<not> is_space c" .
    then show ?thesis using us by auto
  qed
  have u: "\<not> is_forbidden c \<and> \<not> is_space c" if "c \<in> set ?u" for c
  proof -
    from replace_runs_mem[OF that] have "c = CHR ''_'' \<or> c \<in> set ?w" by blast
    then show ?thesis using us w by blast
  qed
  note T = trim_us_props[OF no_adj_replace_runs[of ?w]]
  have "\<not> is_forbidden c \<and> \<not> is_space c" if "c \<in> set (sanitize_core x)" for c
    using that T(3) u unfolding sanitize_core_def by blast
  then show "clean (sanitize_core x)"
    using T(1) unfolding clean_def sanitize_core_def by blast
  show "sanitize_core x = [] \<or> \<not> is_us (hd (sanitize_core x)) \<and> \<not> is_us (last (sanitize_core x))"
    using T(2) unfolding sanitize_core_def .
qed

lemma clean_take: "clean s \<Longrightarrow> clean (take n s)"
  by (auto simp: clean_def no_adj_take dest: in_set_takeD)

lemma sanitize_core_fix_pre:
  assumes "clean s"
  shows "replace_runs is_us (CHR ''_'')
       (replace_runs is_space (CHR ''_'') (filter (\<lambda>c. \<not> is_forbidden c) s)) = s"
proof -
  have "filter (\<lambda>c. \<not> is_forbidden c) s = s" using assms by (auto simp: clean_def)
  moreover have "replace_runs is_space (CHR ''_'') s = s"
    using assms by (intro replace_runs_none) (auto simp: clean_def)
  moreover have "replace_runs is_us (CHR ''_'') s = s"
    using assms by (intro replace_runs_no_adj) (auto simp: clean_def)
  ultimately show ?thesis by simp
qed

lemma sanitize_Unknown: "sanitizeFolderName ''Unknown'' = ''Unknown''"
  by code_simp

lemma sanitize_twice:
  "sanitizeFolderName (sanitizeFolderName x) = sanitizeFolderName x
     \<longleftrightarrow> last (sanitizeFolderName x) \<noteq> CHR ''_''"
proof -
  let ?t = "take 80 (sanitize_core x)"
  show ?thesis
  proof (cases "?t = []")
    case True
    then have "sanitizeFolderName x = ''Unknown''" by (simp add: sanitizeFolderName_def)
    then show ?thesis using sanitize_Unknown by simp
  next
    case False
    then have sx: "sanitizeFolderName x = ?t" by (simp add: sanitizeFolderName_def)
    have ne: "sanitize_core x \<noteq> []" using False by auto
    have cl: "clean ?t" using sanitize_core_clean clean_take by blast
    have hd: "\<not> is_us (hd ?t)" using sanitize_core_ends[of x] ne False by (simp add: hd_take)
    have pre: "sanitize_core ?t = trim_us ?t"
      using sanitize_core_fix_pre[OF cl] by (simp add: sanitize_core_def)
    show ?thesis
    proof (cases "is_us (last ?t)")
      case lastus: False
      have "trim_us ?t = ?t" using trim_us_id[OF False hd lastus] .
      then have "sanitizeFolderName ?t = ?t"
        using pre False by (simp add: sanitizeFolderName_def)
      then show ?thesis using sx lastus by (simp add: is_us_def)
    next
      case True
      have "trim_us ?t = butlast ?t"
        using True False hd by (cases ?t) (auto simp: trim_us_def strip_lead_def strip_trail_def)
      then have "sanitize_core ?t = butlast ?t" using pre by simp
      then have a: "length (sanitize_core ?t) = length (butlast ?t)" by (simp only:)
      have b: "length (butlast ?t) < length ?t"
        using False by (simp del: length_take)
      have "length (take 80 (sanitize_core ?t)) \<le> length (sanitize_core ?t)" by simp
      also have "\<dots> = length (butlast ?t)" by (rule a)
      also have "\<dots> < length ?t" by (rule b)
      finally have "length (take 80 (sanitize_core ?t)) < length ?t" .
      then have "length (sanitizeFolderName ?t) \<noteq> length ?t \<or> sanitizeFolderName ?t = ''Unknown''"
        by (auto simp: sanitizeFolderName_def Let_def)
      moreover have "?t \<noteq> ''Unknown''" using True by (auto simp: is_us_def)
      ultimately have "sanitizeFolderName ?t \<noteq> ?t" by auto
      then show ?thesis using sx True by (simp add: is_us_def)
    qed
  qed
qed


lemma replace_runs_length: "length (replace_runs P r s) \<le> length s"
proof (induction P r s rule: replace_runs.induct)
  case (1 P r)
  then show ?case by simp
next
  case (2 P r c cs)
  have "length (dropWhile P cs) \<le> length cs" by (rule length_dropWhile_le)
  with 2 show ?case by (auto split: if_splits)
qed

lemma trim_us_length: "length (trim_us s) \<le> length s"
  by (cases s) (auto simp: trim_us_def strip_lead_def strip_trail_def)

lemma sanitize_core_length: "length (sanitize_core x) \<le> length x"
proof -
  let ?f = "filter (\<lambda>c. \<not> is_forbidden c) x"
  let ?w = "replace_runs is_space (CHR ''_'') ?f"
  let ?u = "replace_runs is_us (CHR ''_'') ?w"
  have "length (trim_us ?u) \<le> length ?u" by (rule trim_us_length)
  also have "\<dots> \<le> length ?w" by (rule replace_runs_length)
  also have "\<dots> \<le> length ?f" by (rule replace_runs_length)
  also have "\<dots> \<le> length x" by (rule length_filter_le)
  finally show ?thesis by (simp add: sanitize_core_def)
qed

lemma sanitize_short_last:
  assumes "length x \<le> 80"
  shows "last (sanitizeFolderName x) \<noteq> CHR ''_''"
proof (cases "sanitize_core x = []")
  case True
  then show ?thesis by (simp add: sanitizeFolderName_def)
next
  case False
  have "length (sanitize_core x) \<le> 80" using sanitize_core_length[of x] assms by simp
  then have "sanitizeFolderName x = sanitize_core x"
    using False by (simp add: sanitizeFolderName_def)
  then show ?thesis using sanitize_core_ends[of x] False by (simp add: is_us_def)
qed

text \<open>
  C8, as the code has it. Sanitizing twice gives what sanitizing once gives exactly when
  the sanitized name does not end in an underscore; this is so for every input of at most
  80 characters. (The cut at 80 characters comes after the trimming and can end the name
  on an underscore, which a second pass removes.)
\<close>

theorem sanitize_idempotent_unless_cut:
  "(sanitizeFolderName (sanitizeFolderName x) = sanitizeFolderName x
      \<longleftrightarrow> last (sanitizeFolderName x) \<noteq> CHR ''_'')
   \<and> (length x \<le> 80 \<longrightarrow>
        sanitizeFolderName (sanitizeFolderName x) = sanitizeFolderName x)"
  using sanitize_twice[of x] sanitize_short_last[of x] by blast

theorem sanitize_idempotent_unless_cut_witness:
  "length ''Re: March / Invoice'' \<le> 80
   \<and> last (sanitizeFolderName ''Re: March / Invoice'') \<noteq> CHR ''_''
   \<and> sanitizeFolderName (sanitizeFolderName ''Re: March / Invoice'')
       = sanitizeFolderName ''Re: March / Invoice''"
proof -
  have h: "length ''Re: March / Invoice'' \<le> 80" by simp
  show ?thesis
    using h sanitize_idempotent_unless_cut[of "''Re: March / Invoice''"] by blast
qed

text \<open>
  C8 as stated fails: 79 letters, an underscore and one more letter are cut to 79 letters
  and the underscore; the second pass trims the underscore.
\<close>

theorem sanitize_not_idempotent:
  "sanitizeFolderName (sanitizeFolderName (replicate 79 (CHR ''a'') @ ''_b''))
     \<noteq> sanitizeFolderName (replicate 79 (CHR ''a'') @ ''_b'')"
  by code_simp

section \<open>The download loop and the entries of one item\<close>

lemma download_loop_acc:
  "download_loop e it atts acc =
     acc @ List.map_filter
       (\<lambda>att. map_option (downloaded it att)
                (download e (messageId it) (att_id att) (accountIndex it))) atts"
  by (induction atts arbitrary: acc) (auto simp: List.map_filter_simps split: option.splits)

lemma map_filter_pair:
  "map (\<lambda>(a, b). f a b) (List.map_filter (\<lambda>a. map_option (Pair a) (g a)) xs) =
     List.map_filter (\<lambda>a. map_option (f a) (g a)) xs"
  by (induction xs) (auto split: option.splits)

lemma map_filter_fst:
  "map fst (List.map_filter (\<lambda>a. map_option (Pair a) (g a)) xs) = filter (\<lambda>a. g a \<noteq> None) xs"
  by (induction xs) (auto split: option.splits)

lemma download_loop_fetched: "download_loop e it (attachments it) [] = fetched e it"
  by (simp add: download_loop_acc fetched_def succeeded_def map_filter_pair)

lemma succeeded_mem:
  "(att, buf) \<in> set (succeeded e it) \<longleftrightarrow>
     att \<in> set (attachments it)
     \<and> download e (messageId it) (att_id att) (accountIndex it) = Some buf"
  by (force simp: succeeded_def List.map_filter_def)


lemma base_resolves:
  "generateBasePdf e it atts =
     (if list_ex (\<lambda>img. draws e (buffer img) = Corrupts) (filter isImage atts)
      then Inl StreamError else Inr (base_doc e it atts))"
  by (simp add: generateBasePdf_def base_doc_def listing_def Let_def)

lemma corrupts_fetched:
  "list_ex (\<lambda>img. draws e (buffer img) = Corrupts) (filter isImage (fetched e it))
     \<longleftrightarrow> \<not> builds e it"
  by (force simp: builds_def fetched_def list_ex_iff downloaded_def case_prod_unfold)

lemma splices_of_parsable:
  "concat (map (splice e) (filter isPdf ds)) =
     map (\<lambda>a. SplicedPage (filename a) (the (first_page e (buffer a))))
       (filter (\<lambda>a. isPdf a \<and> first_page e (buffer a) \<noteq> None) ds)"
  by (induction ds) (auto simp: splice_def split: option.splits)

lemma combined_of_base:
  "generateCombinedPdf e it ds =
     (case generateBasePdf e it ds of
        Inl ex \<Rightarrow> Inl ex
      | Inr base \<Rightarrow>
          Inr (base
            @ (if reloads e
               then map (\<lambda>a. SplicedPage (filename a) (the (first_page e (buffer a))))
                      (filter (\<lambda>a. isPdf a \<and> first_page e (buffer a) \<noteq> None) ds)
               else [])))"
proof (cases "filter isPdf ds = []")
  case True
  then have "filter (\<lambda>a. isPdf a \<and> first_page e (buffer a) \<noteq> None) ds = []"
    by (auto simp: filter_empty_conv)
  then show ?thesis using True by (simp add: generateCombinedPdf_def Let_def split: sum.splits)
next
  case False
  then show ?thesis
    by (simp add: generateCombinedPdf_def Let_def splices_of_parsable split: sum.splits)
qed

lemma combined_fetched:
  "generateCombinedPdf e it (fetched e it) =
     (if builds e it then Inr (combined_doc e it (fetched e it)) else Inl StreamError)"
  by (simp add: combined_of_base base_resolves corrupts_fetched combined_doc_def)

lemma metadata_rows_combined_doc: "metadata_rows (combined_doc e it atts) = listing atts"
  by (simp add: combined_doc_def base_doc_def)

lemma bundle_item_result:
  "bundle_item e fc it =
     (if builds e it then Inr (counters_after e fc [it], unit_entries e fc it)
      else Inl StreamError)"
  by (simp add: bundle_item_def download_loop_fetched combined_fetched unit_entries_def
      Let_def split: prod.splits)

section \<open>The loop over the items\<close>

lemma bundle_loop_builds:
  "list_all (builds e) items \<Longrightarrow>
     bundle_loop e fc acc items = Inr (acc @ archive_of e fc items)"
  by (induction items arbitrary: fc acc) (simp_all add: bundle_item_result)

lemma bundle_loop_Inr:
  "bundle_loop e fc acc items = Inr archive \<Longrightarrow> list_all (builds e) items"
  by (induction items arbitrary: fc acc) (auto simp: bundle_item_result split: if_splits)

lemma bundle_loop_fails:
  "\<not> list_all (builds e) items \<Longrightarrow> \<exists>sofar. bundle_loop e fc acc items = Inl (BuildFailed sofar)"
  by (induction items arbitrary: fc acc) (auto simp: bundle_item_result)

lemma counters_after_append:
  "counters_after e fc (xs @ ys) = counters_after e (counters_after e fc xs) ys"
  by (induction xs arbitrary: fc) simp_all

lemma archive_of_append:
  "archive_of e fc (xs @ ys) = archive_of e fc xs @ archive_of e (counters_after e fc xs) ys"
  by (induction xs arbitrary: fc) simp_all

text \<open>
  A finalized archive, cut at one of its items: the archive of the items before it, then
  its own entries, written with the counters the earlier items have left, then the rest.
\<close>

lemma bundle_loop_unit:
  assumes "bundle_loop e Map.empty [] (pre @ it # post) = Inr archive"
  shows "bundle_loop e Map.empty [] pre = Inr (archive_of e Map.empty pre)"
    and "archive = archive_of e Map.empty pre
           @ unit_entries e (counters_after e Map.empty pre) it
           @ archive_of e (counters_after e Map.empty (pre @ [it])) post"
    and "builds e it"
proof -
  have all: "list_all (builds e) (pre @ it # post)" using assms by (rule bundle_loop_Inr)
  then show "builds e it" by simp
  have "list_all (builds e) pre" using all by simp
  then show "bundle_loop e Map.empty [] pre = Inr (archive_of e Map.empty pre)"
    using bundle_loop_builds[of e pre Map.empty "[]"] by simp
  have "archive = archive_of e Map.empty (pre @ it # post)"
    using bundle_loop_builds[OF all, of Map.empty "[]"] assms by simp
  then show "archive = archive_of e Map.empty pre
           @ unit_entries e (counters_after e Map.empty pre) it
           @ archive_of e (counters_after e Map.empty (pre @ [it])) post"
    by (simp add: archive_of_append counters_after_append)
qed

lemma counters_after_count:
  "counters_after e fc pre k =
     (let c = length (filter (\<lambda>j. fileKey e j = k) pre)
      in if c = 0 then fc k
         else Some ((case fc k of None \<Rightarrow> 0 | Some n \<Rightarrow> Suc n) + (c - 1)))"
proof (induction pre arbitrary: fc)
  case Nil
  then show ?case by simp
next
  case (Cons it pre)
  show ?case
    by (simp add: Cons.IH count_key_def Let_def split: option.splits)
qed

lemma counters_after_empty:
  "counters_after e Map.empty pre (fileKey e it) =
     (if same_key_count e pre it = 0 then None else Some (same_key_count e pre it - 1))"
  by (simp add: counters_after_count same_key_count_def Let_def)

lemma count_key_suffix:
  "snd (count_key (counters_after e Map.empty pre) (fileKey e it) base) =
     base @ (if same_key_count e pre it = 0 then []
             else ''_'' @ show_nat (same_key_count e pre it))"
  by (simp add: count_key_def counters_after_empty split: option.splits)

lemma raw_entry_name:
  "fst (raw_entry e it a) =
     entityFolder it @ ''/'' @ datePrefix e it @ ''_''
       @ take 60 (sanitizeFolderName (strip_ext (filename a))) @ dot_ext (filename a)"
  by (simp add: raw_entry_def Let_def)


section \<open>The example inputs, evaluated\<close>

lemmas char_eval = char_of_def bit_Suc_0_iff

lemmas sanitize_eval = sanitizeFolderName_def sanitize_core_def trim_us_def strip_lead_def
  strip_trail_def is_us_def is_space_def is_forbidden_def

lemmas generic_eval = isGenericFilename_def opt_us_digits_def startsWith_def strip_ext_def
  after_last_dot_def toLowerCase_def to_lower_char_def is_digit_def is_us_def char_eval Let_def

lemmas mime_eval = is_image_mime_def is_pdf_mime_def ascii_lower_def char_eval Let_def

lemma sanitize_Acme_Corp: "sanitizeFolderName ''Acme Corp'' = ''Acme_Corp''"
  by (simp add: sanitize_eval)

lemma sanitize_March_Invoice: "sanitizeFolderName ''March Invoice'' = ''March_Invoice''"
  by (simp add: sanitize_eval)

lemma sanitize_invoice: "sanitizeFolderName ''invoice'' = ''invoice''"
  by (simp add: sanitize_eval)



lemma example_date: "formatDatePrefix (parse example_env) ''2024-03-15'' = ''2024-03-15''"
  by (simp add: formatDatePrefix_def new_Date_def example_env_def padStart_def show_int_def
      char_eval)

lemma acme_names:
  "entityFolder (acme_item atts) = ''Acme_Corp''"
  "datePrefix example_env (acme_item atts) = ''2024-03-15''"
  "subjectSlug (acme_item atts) = ''March_Invoice''"
  "fileKey example_env (acme_item atts) = ''Acme_Corp/2024-03-15_March_Invoice''"
  by (simp_all add: fileKey_def entityFolder_def datePrefix_def subjectSlug_def acme_item_def
      entity_or_unknown_def or_else_def sanitize_Acme_Corp sanitize_March_Invoice example_date)

lemma generic_examples:
  "isGenericFilename ''inline_1.pdf''" "isGenericFilename ''attachment.pdf''"
  "isGenericFilename ''noname.jpg''" "\<not> isGenericFilename ''invoice-march.pdf''"
  "\<not> isGenericFilename ''invoice.pdf''" "\<not> isGenericFilename ''figures.xlsx''"
  "\<not> isGenericFilename ''broken.pdf''" "\<not> isGenericFilename ''scan.png''"
  by (simp_all add: generic_eval)

lemma downloaded_invoice:
  "downloaded (acme_item atts) invoice_pdf buf =
     \<lparr>filename = ''invoice.pdf'', mimeType = ''application/pdf'', size_bytes = length buf,
      buffer = buf, isImage = False, isPdf = True\<rparr>"
  by (simp add: downloaded_def attName_def invoice_pdf_def generic_examples mime_eval)


lemma downloaded_broken:
  "downloaded (acme_item atts) broken_pdf buf =
     \<lparr>filename = ''broken.pdf'', mimeType = ''application/pdf'', size_bytes = length buf,
      buffer = buf, isImage = False, isPdf = True\<rparr>"
  by (simp add: downloaded_def attName_def broken_pdf_def generic_examples mime_eval)

lemma downloaded_inline:
  "downloaded (acme_item atts) inline_pdf buf =
     \<lparr>filename = ''March_Invoice.pdf'', mimeType = ''application/pdf'', size_bytes = length buf,
      buffer = buf, isImage = False, isPdf = True\<rparr>"
  by (simp add: downloaded_def attName_def inline_pdf_def generic_examples mime_eval
      acme_item_def sanitize_March_Invoice dot_ext_def after_last_dot_def)

lemma example_downloads:
  "download example_env m (att_id invoice_pdf) n = Some [37, 80, 68, 70]"
  "download example_env m (att_id inline_pdf) n = Some [37, 80, 68, 70]"
  "download example_env m (att_id figures_xlsx) n = Some [80, 75]"
  "download example_env m (att_id scan_png) n = None"
  "download example_env m (att_id broken_pdf) n = Some [0]"
  "download example_env m (att_id corrupt_png) n = Some [137, 80, 78, 71]"
  by (simp_all add: example_env_def invoice_pdf_def inline_pdf_def figures_xlsx_def
      scan_png_def broken_pdf_def corrupt_png_def)

lemma example_first_page:
  "first_page example_env b = (if b = [37, 80, 68, 70] then Some 7 else None)"
  by (simp add: example_env_def)

lemma example_reloads: "reloads example_env"
  by (simp add: example_env_def)

lemma example_strip: "strip_html example_env h = h"
  by (simp add: example_env_def)

lemma example_draws:
  "draws example_env b = (if b = [137, 80, 78, 71] then Corrupts else Embedded)"
  by (simp add: example_env_def)

lemma example_mimes:
  "is_pdf_mime (att_mimeType invoice_pdf)" "\<not> is_image_mime (att_mimeType invoice_pdf)"
  "is_pdf_mime (att_mimeType inline_pdf)" "\<not> is_image_mime (att_mimeType inline_pdf)"
  "\<not> is_pdf_mime (att_mimeType figures_xlsx)" "\<not> is_image_mime (att_mimeType figures_xlsx)"
  "is_pdf_mime (att_mimeType broken_pdf)" "\<not> is_image_mime (att_mimeType broken_pdf)"
  "is_image_mime (att_mimeType corrupt_png)"
  by (simp_all add: invoice_pdf_def inline_pdf_def figures_xlsx_def broken_pdf_def
      corrupt_png_def mime_eval)

lemma succeeded_acme:
  "succeeded example_env (acme_item []) = []"
  "succeeded example_env (acme_item [invoice_pdf]) = [(invoice_pdf, [37, 80, 68, 70])]"
  "succeeded example_env (acme_item [inline_pdf]) = [(inline_pdf, [37, 80, 68, 70])]"
  "succeeded example_env (acme_item [invoice_pdf, figures_xlsx]) =
     [(invoice_pdf, [37, 80, 68, 70]), (figures_xlsx, [80, 75])]"
  "succeeded example_env (acme_item [invoice_pdf, scan_png, broken_pdf]) =
     [(invoice_pdf, [37, 80, 68, 70]), (broken_pdf, [0])]"
  "succeeded example_env (acme_item [scan_png, corrupt_png]) =
     [(corrupt_png, [137, 80, 78, 71])]"
  by (simp_all add: succeeded_def List.map_filter_simps example_downloads acme_item_def)

lemma fetched_acme:
  "fetched example_env (acme_item []) = []"
  "fetched example_env (acme_item [invoice_pdf]) =
     [downloaded (acme_item [invoice_pdf]) invoice_pdf [37, 80, 68, 70]]"
  "fetched example_env (acme_item [inline_pdf]) =
     [downloaded (acme_item [inline_pdf]) inline_pdf [37, 80, 68, 70]]"
  "fetched example_env (acme_item [invoice_pdf, figures_xlsx]) =
     [downloaded (acme_item [invoice_pdf, figures_xlsx]) invoice_pdf [37, 80, 68, 70],
      downloaded (acme_item [invoice_pdf, figures_xlsx]) figures_xlsx [80, 75]]"
  "fetched example_env (acme_item [invoice_pdf, scan_png, broken_pdf]) =
     [downloaded (acme_item [invoice_pdf, scan_png, broken_pdf]) invoice_pdf [37, 80, 68, 70],
      downloaded (acme_item [invoice_pdf, scan_png, broken_pdf]) broken_pdf [0]]"
  by (simp_all add: fetched_def succeeded_acme)

lemma builds_acme:
  "builds example_env (acme_item [])"
  "builds example_env (acme_item [invoice_pdf])"
  "builds example_env (acme_item [inline_pdf])"
  "builds example_env (acme_item [invoice_pdf, figures_xlsx])"
  "builds example_env (acme_item [invoice_pdf, scan_png, broken_pdf])"
  "\<not> builds example_env (acme_item [scan_png, corrupt_png])"
  by (simp_all add: builds_def succeeded_acme example_mimes example_draws)

lemma raw_entry_invoice:
  "raw_entry example_env (acme_item atts) (downloaded (acme_item atts) invoice_pdf buf) =
     (''Acme_Corp/2024-03-15_invoice.pdf'', Raw buf)"
  by (simp add: raw_entry_def acme_names downloaded_invoice strip_ext_def dot_ext_def
      after_last_dot_def sanitize_invoice)

lemma raw_entry_inline:
  "raw_entry example_env (acme_item atts) (downloaded (acme_item atts) inline_pdf buf) =
     (''Acme_Corp/2024-03-15_March_Invoice.pdf'', Raw buf)"
  by (simp add: raw_entry_def acme_names downloaded_inline strip_ext_def dot_ext_def
      after_last_dot_def sanitize_eval)



text \<open>The archive of a list of example items, each of which builds.\<close>

lemma example_archive:
  "list_all (builds example_env) items \<Longrightarrow>
     bundle_loop example_env Map.empty [] items = Inr (archive_of example_env Map.empty items)"
  using bundle_loop_builds[of example_env items Map.empty "[]"] by simp

lemma example_bundle:
  assumes "list_all (builds example_env) items" and "items \<noteq> []"
  shows "download_bundle example_env items = Inr (archive_of example_env Map.empty items)"
  unfolding download_bundle_def using example_archive[OF assms(1)] assms(2) by simp

section \<open>The entries of one unit (C1, C2, C4)\<close>






text \<open>
  C2, as the code has it. In a finalized archive built from \<open>pre @ it # post\<close> the entries of
  the unit \<open>it\<close> follow those of \<open>pre\<close>. The combined PDF and the combined JSON carry one
  and the same stem, \<open><folder>/<date>_<subject slug>\<close> plus the collision suffix of the
  unit, before \<open>_combined.pdf\<close> and \<open>_combined.json\<close>. The raw file of each downloaded
  attachment follows under \<open><folder>/<date>_<slug><ext>\<close>, where the slug is the first 60
  characters of the sanitized attachment name without its extension (the name after the
  renaming of generic file names); the collision counter does not enter it.
\<close>

theorem combined_pair_shares_stem:
  assumes "bundle_loop e Map.empty [] (pre @ it # post) = Inr archive"
  shows "\<exists>before unit after.
     bundle_loop e Map.empty [] pre = Inr before
     \<and> archive = before @ unit @ after
     \<and> map fst unit =
         [entityFolder it @ ''/'' @ datePrefix e it @ ''_'' @ subjectSlug it
            @ (if same_key_count e pre it = 0 then []
               else ''_'' @ show_nat (same_key_count e pre it))
            @ ''_combined.pdf'',
          entityFolder it @ ''/'' @ datePrefix e it @ ''_'' @ subjectSlug it
            @ (if same_key_count e pre it = 0 then []
               else ''_'' @ show_nat (same_key_count e pre it))
            @ ''_combined.json'']
         @ map (\<lambda>(att, buf). entityFolder it @ ''/'' @ datePrefix e it @ ''_''
                   @ take 60 (sanitizeFolderName (strip_ext (attName it att)))
                   @ dot_ext (attName it att))
             (succeeded e it)"
proof -
  note u = bundle_loop_unit[OF assms]
  let ?unit = "unit_entries e (counters_after e Map.empty pre) it"
  have "map fst ?unit =
         [entityFolder it @ ''/'' @ datePrefix e it @ ''_'' @ subjectSlug it
            @ (if same_key_count e pre it = 0 then []
               else ''_'' @ show_nat (same_key_count e pre it))
            @ ''_combined.pdf'',
          entityFolder it @ ''/'' @ datePrefix e it @ ''_'' @ subjectSlug it
            @ (if same_key_count e pre it = 0 then []
               else ''_'' @ show_nat (same_key_count e pre it))
            @ ''_combined.json'']
         @ map (\<lambda>(att, buf). entityFolder it @ ''/'' @ datePrefix e it @ ''_''
                   @ take 60 (sanitizeFolderName (strip_ext (attName it att)))
                   @ dot_ext (attName it att))
             (succeeded e it)"
    unfolding unit_entries_def count_key_suffix
    by (simp add: raw_entry_name comp_def fetched_def downloaded_def case_prod_unfold)
  then show ?thesis using u(1) u(2) by blast
qed

theorem combined_pair_shares_stem_witness:
  "\<exists>archive before unit after.
     bundle_loop example_env Map.empty [] ([acme_item []] @ acme_item [inline_pdf] # []) = Inr archive
     \<and> bundle_loop example_env Map.empty [] [acme_item []] = Inr before
     \<and> archive = before @ unit @ after
     \<and> map fst unit =
         [''Acme_Corp/2024-03-15_March_Invoice_1_combined.pdf'',
          ''Acme_Corp/2024-03-15_March_Invoice_1_combined.json'',
          ''Acme_Corp/2024-03-15_March_Invoice.pdf'']"
proof -
  let ?it = "acme_item [inline_pdf]"
  have b: "list_all (builds example_env) ([acme_item []] @ ?it # [])"
    by (simp add: builds_acme)
  note run = example_archive[OF b]
  have c: "same_key_count example_env [acme_item []] ?it = 1"
    by (simp add: same_key_count_def acme_names)
  have s: "show_nat 1 = ''1''" by (simp add: char_eval)
  have n: "attName ?it inline_pdf = ''March_Invoice.pdf''"
    using downloaded_inline[of "[inline_pdf]" "[]"] by (simp add: downloaded_def)
  have r: "take 60 (sanitizeFolderName (strip_ext ''March_Invoice.pdf'')) = ''March_Invoice''"
    "dot_ext ''March_Invoice.pdf'' = ''.pdf''"
    by (simp_all add: strip_ext_def dot_ext_def after_last_dot_def sanitize_eval)
  have e: "[entityFolder ?it @ ''/'' @ datePrefix example_env ?it @ ''_'' @ subjectSlug ?it
            @ (if same_key_count example_env [acme_item []] ?it = 0 then []
               else ''_'' @ show_nat (same_key_count example_env [acme_item []] ?it))
            @ ''_combined.pdf'',
          entityFolder ?it @ ''/'' @ datePrefix example_env ?it @ ''_'' @ subjectSlug ?it
            @ (if same_key_count example_env [acme_item []] ?it = 0 then []
               else ''_'' @ show_nat (same_key_count example_env [acme_item []] ?it))
            @ ''_combined.json'']
         @ map (\<lambda>(att, buf). entityFolder ?it @ ''/'' @ datePrefix example_env ?it @ ''_''
                   @ take 60 (sanitizeFolderName (strip_ext (attName ?it att)))
                   @ dot_ext (attName ?it att))
             (succeeded example_env ?it)
        = [''Acme_Corp/2024-03-15_March_Invoice_1_combined.pdf'',
           ''Acme_Corp/2024-03-15_March_Invoice_1_combined.json'',
           ''Acme_Corp/2024-03-15_March_Invoice.pdf'']"
    by (simp add: c s n r acme_names succeeded_acme char_eval)
  from combined_pair_shares_stem[OF run]
  obtain before unit after where
    p: "bundle_loop example_env Map.empty [] [acme_item []] = Inr before"
    and a: "archive_of example_env Map.empty ([acme_item []] @ ?it # []) = before @ unit @ after"
    and m: "map fst unit =
         [''Acme_Corp/2024-03-15_March_Invoice_1_combined.pdf'',
          ''Acme_Corp/2024-03-15_March_Invoice_1_combined.json'',
          ''Acme_Corp/2024-03-15_March_Invoice.pdf'']"
    unfolding e by (elim exE conjE) (rule that)
  show ?thesis
  proof (intro exI conjI)
    show "bundle_loop example_env Map.empty [] ([acme_item []] @ ?it # [])
            = Inr (archive_of example_env Map.empty ([acme_item []] @ ?it # []))"
      by (rule run)
    show "bundle_loop example_env Map.empty [] [acme_item []] = Inr before" by (rule p)
    show "archive_of example_env Map.empty ([acme_item []] @ ?it # []) = before @ unit @ after"
      by (rule a)
    show "map fst unit =
         [''Acme_Corp/2024-03-15_March_Invoice_1_combined.pdf'',
          ''Acme_Corp/2024-03-15_March_Invoice_1_combined.json'',
          ''Acme_Corp/2024-03-15_March_Invoice.pdf'']"
      by (rule m)
  qed
qed

text \<open>
  C2 as stated fails: for the email \<open>March Invoice\<close> with the attachment \<open>invoice.pdf\<close> the
  raw file is \<open>2024-03-15_invoice.pdf\<close>, and its stem is not the stem of the combined pair,
  \<open>2024-03-15_March_Invoice\<close>.
\<close>

theorem raw_file_has_its_own_stem:
  "archive_names (download_bundle example_env [acme_item [invoice_pdf]]) =
     Some [''Acme_Corp/2024-03-15_March_Invoice_combined.pdf'',
           ''Acme_Corp/2024-03-15_March_Invoice_combined.json'',
           ''Acme_Corp/2024-03-15_invoice.pdf'']
   \<and> strip_ext ''Acme_Corp/2024-03-15_invoice.pdf'' @ ''_combined.pdf''
       \<noteq> ''Acme_Corp/2024-03-15_March_Invoice_combined.pdf''"
proof -
  have b: "list_all (builds example_env) [acme_item [invoice_pdf]]"
    by (simp add: builds_acme)
  have a: "download_bundle example_env [acme_item [invoice_pdf]]
      = Inr (archive_of example_env Map.empty [acme_item [invoice_pdf]])"
    using b by (rule example_bundle) simp
  show ?thesis
    unfolding a
    by (simp add: archive_names_def unit_entries_def fetched_acme acme_names count_key_def
        raw_entry_invoice strip_ext_def after_last_dot_def)
qed

text \<open>
  C4, as the code has it. A unit that comes after \<open>c\<close> earlier units with its file key
  (entity folder, date prefix and subject slug) has the combined PDF and the combined JSON
  named \<open><key>_combined.<ext>\<close> when \<open>c = 0\<close> and \<open><key>_<c>_combined.<ext>\<close> otherwise:
  the second unit of a key carries \<open>_1\<close>, the third \<open>_2\<close>. The suffix stands before
  \<open>_combined\<close>, and the raw attachment files carry none.
\<close>

theorem collision_suffix_counts_earlier_units:
  assumes "bundle_loop e Map.empty [] (pre @ it # post) = Inr archive"
  shows "\<exists>before unit after.
     bundle_loop e Map.empty [] pre = Inr before
     \<and> bundle_item e (counters_after e Map.empty pre) it
         = Inr (counters_after e Map.empty (pre @ [it]), unit)
     \<and> archive = before @ unit @ after
     \<and> map fst unit =
         [fileKey e it
            @ (if same_key_count e pre it = 0 then []
               else ''_'' @ show_nat (same_key_count e pre it))
            @ ''_combined.pdf'',
          fileKey e it
            @ (if same_key_count e pre it = 0 then []
               else ''_'' @ show_nat (same_key_count e pre it))
            @ ''_combined.json'']
         @ map (\<lambda>a. fst (raw_entry e it a)) (download_loop e it (attachments it) [])"
proof -
  note u = bundle_loop_unit[OF assms]
  let ?unit = "unit_entries e (counters_after e Map.empty pre) it"
  have names: "map fst ?unit =
         [fileKey e it
            @ (if same_key_count e pre it = 0 then []
               else ''_'' @ show_nat (same_key_count e pre it))
            @ ''_combined.pdf'',
          fileKey e it
            @ (if same_key_count e pre it = 0 then []
               else ''_'' @ show_nat (same_key_count e pre it))
            @ ''_combined.json'']
         @ map (\<lambda>a. fst (raw_entry e it a)) (download_loop e it (attachments it) [])"
    unfolding unit_entries_def count_key_suffix
    by (simp add: fileKey_def download_loop_fetched)
  have "bundle_item e (counters_after e Map.empty pre) it
         = Inr (counters_after e Map.empty (pre @ [it]), ?unit)"
    using u(3) by (simp add: bundle_item_result counters_after_append)
  then show ?thesis using u(1) u(2) names by blast
qed

theorem collision_suffix_counts_earlier_units_witness:
  "same_key_count example_env [acme_item [], acme_item []] (acme_item [invoice_pdf]) = 2
   \<and> (\<exists>archive before unit after.
        bundle_loop example_env Map.empty []
          ([acme_item [], acme_item []] @ acme_item [invoice_pdf] # []) = Inr archive
        \<and> bundle_loop example_env Map.empty [] [acme_item [], acme_item []] = Inr before
        \<and> archive = before @ unit @ after
        \<and> map fst unit =
            [''Acme_Corp/2024-03-15_March_Invoice_2_combined.pdf'',
             ''Acme_Corp/2024-03-15_March_Invoice_2_combined.json'',
             ''Acme_Corp/2024-03-15_invoice.pdf''])"
proof -
  let ?it = "acme_item [invoice_pdf]"
  let ?pre = "[acme_item [], acme_item []]"
  have b: "list_all (builds example_env) (?pre @ ?it # [])"
    by (simp add: builds_acme)
  note run = example_archive[OF b]
  have c: "same_key_count example_env ?pre ?it = 2"
    by (simp add: same_key_count_def acme_names)
  have s: "show_nat 2 = ''2''" by (simp add: char_eval)
  have e: "[fileKey example_env ?it
            @ (if same_key_count example_env ?pre ?it = 0 then []
               else ''_'' @ show_nat (same_key_count example_env ?pre ?it))
            @ ''_combined.pdf'',
          fileKey example_env ?it
            @ (if same_key_count example_env ?pre ?it = 0 then []
               else ''_'' @ show_nat (same_key_count example_env ?pre ?it))
            @ ''_combined.json'']
         @ map (\<lambda>a. fst (raw_entry example_env ?it a))
             (download_loop example_env ?it (attachments ?it) [])
        = [''Acme_Corp/2024-03-15_March_Invoice_2_combined.pdf'',
           ''Acme_Corp/2024-03-15_March_Invoice_2_combined.json'',
           ''Acme_Corp/2024-03-15_invoice.pdf'']"
    by (simp add: c s acme_names download_loop_fetched fetched_acme raw_entry_invoice char_eval)
  from collision_suffix_counts_earlier_units[OF run]
  obtain before unit after where
    p: "bundle_loop example_env Map.empty [] ?pre = Inr before"
    and a: "archive_of example_env Map.empty (?pre @ ?it # []) = before @ unit @ after"
    and m: "map fst unit =
            [''Acme_Corp/2024-03-15_March_Invoice_2_combined.pdf'',
             ''Acme_Corp/2024-03-15_March_Invoice_2_combined.json'',
             ''Acme_Corp/2024-03-15_invoice.pdf'']"
    unfolding e by (elim exE conjE) (rule that)
  show ?thesis
  proof (intro exI conjI)
    show "same_key_count example_env ?pre ?it = 2" by (rule c)
    show "bundle_loop example_env Map.empty [] (?pre @ ?it # [])
            = Inr (archive_of example_env Map.empty (?pre @ ?it # []))"
      by (rule run)
    show "bundle_loop example_env Map.empty [] ?pre = Inr before" by (rule p)
    show "archive_of example_env Map.empty (?pre @ ?it # []) = before @ unit @ after"
      by (rule a)
    show "map fst unit =
            [''Acme_Corp/2024-03-15_March_Invoice_2_combined.pdf'',
             ''Acme_Corp/2024-03-15_March_Invoice_2_combined.json'',
             ''Acme_Corp/2024-03-15_invoice.pdf'']"
      by (rule m)
  qed
qed

text \<open>
  C4 as stated fails: of three units with one file key the second carries \<open>_1\<close> and the
  third \<open>_2\<close>, not \<open>_2\<close> and \<open>_3\<close>, and the three raw files carry no suffix at all.
\<close>

theorem second_unit_suffix_is_1:
  "archive_names (download_bundle example_env
      [acme_item [invoice_pdf], acme_item [invoice_pdf], acme_item [invoice_pdf]]) =
     Some [''Acme_Corp/2024-03-15_March_Invoice_combined.pdf'',
           ''Acme_Corp/2024-03-15_March_Invoice_combined.json'',
           ''Acme_Corp/2024-03-15_invoice.pdf'',
           ''Acme_Corp/2024-03-15_March_Invoice_1_combined.pdf'',
           ''Acme_Corp/2024-03-15_March_Invoice_1_combined.json'',
           ''Acme_Corp/2024-03-15_invoice.pdf'',
           ''Acme_Corp/2024-03-15_March_Invoice_2_combined.pdf'',
           ''Acme_Corp/2024-03-15_March_Invoice_2_combined.json'',
           ''Acme_Corp/2024-03-15_invoice.pdf'']
   \<and> ''Acme_Corp/2024-03-15_March_Invoice_3_combined.pdf''
       \<notin> set (the (archive_names (download_bundle example_env
           [acme_item [invoice_pdf], acme_item [invoice_pdf], acme_item [invoice_pdf]])))"
proof -
  have b: "list_all (builds example_env)
             [acme_item [invoice_pdf], acme_item [invoice_pdf], acme_item [invoice_pdf]]"
    by (simp add: builds_acme)
  have a: "download_bundle example_env
        [acme_item [invoice_pdf], acme_item [invoice_pdf], acme_item [invoice_pdf]]
      = Inr (archive_of example_env Map.empty
          [acme_item [invoice_pdf], acme_item [invoice_pdf], acme_item [invoice_pdf]])"
    using b by (rule example_bundle) simp
  show ?thesis
    unfolding a
    by (simp add: archive_names_def unit_entries_def fetched_acme acme_names count_key_def
        raw_entry_invoice char_eval)
qed

section \<open>The JSON record (C3)\<close>

text \<open>
  C3, as the code has it. The combined JSON record of an item has the fields
  \<open>messageId\<close>, \<open>subject\<close>, \<open>from\<close>, \<open>to\<close>, \<open>cc\<close>, \<open>date\<close>, \<open>dateISO\<close>, \<open>entity\<close>,
  \<open>bodyText\<close> and \<open>attachments\<close>, in this order, and no field \<open>linkedAttachmentFile\<close>,
  with attachments or without.
\<close>

theorem json_record_fields:
  "json_keys (generateJsonRecord e it atts) =
     [''messageId'', ''subject'', ''from'', ''to'', ''cc'', ''date'', ''dateISO'', ''entity'',
      ''bodyText'', ''attachments'']
   \<and> json_field ''linkedAttachmentFile'' (generateJsonRecord e it atts) = None"
  by (simp add: generateJsonRecord_def)

theorem json_record_fields_witness:
  "json_field ''linkedAttachmentFile''
     (generateJsonRecord example_env (acme_item []) (fetched example_env (acme_item []))) = None"
  using json_record_fields[of example_env "acme_item []" "fetched example_env (acme_item [])"]
  by simp

text \<open>
  C3 as stated fails: the archive of the email with the attachment \<open>invoice.pdf\<close> holds the
  raw file \<open>Acme_Corp/2024-03-15_invoice.pdf\<close>, and the JSON record written beside it has
  no field \<open>linkedAttachmentFile\<close>.
\<close>

theorem json_record_without_link:
  "download_bundle example_env [acme_item [invoice_pdf]] =
     Inr [(''Acme_Corp/2024-03-15_March_Invoice_combined.pdf'',
           Pdf [MetadataPage ''March Invoice''
                  [(''From'', ''Billing <billing@acme.com>''), (''To'', ''me@example.org''),
                   (''Date'', ''2024-03-15''), (''Entity'', ''Acme Corp'')]
                  [\<lparr>row_filename = ''invoice.pdf'', row_size = 4,
                     row_badge = ''[PDF preview below]''\<rparr>],
                BodyPage ''Invoice attached.'',
                SplicedPage ''invoice.pdf'' 7]),
          (''Acme_Corp/2024-03-15_March_Invoice_combined.json'',
           Json (generateJsonRecord example_env (acme_item [invoice_pdf])
                   (download_loop example_env (acme_item [invoice_pdf])
                      (attachments (acme_item [invoice_pdf])) []))),
          (''Acme_Corp/2024-03-15_invoice.pdf'', Raw [37, 80, 68, 70])]
   \<and> json_field ''linkedAttachmentFile''
         (generateJsonRecord example_env (acme_item [invoice_pdf])
            (download_loop example_env (acme_item [invoice_pdf])
               (attachments (acme_item [invoice_pdf])) []))
       \<noteq> Some (JString ''Acme_Corp/2024-03-15_invoice.pdf'')"
proof -
  have b: "list_all (builds example_env) [acme_item [invoice_pdf]]"
    by (simp add: builds_acme)
  have a: "download_bundle example_env [acme_item [invoice_pdf]]
      = Inr (archive_of example_env Map.empty [acme_item [invoice_pdf]])"
    using b by (rule example_bundle) simp
  have f: "fetched example_env (acme_item [invoice_pdf]) =
      [\<lparr>filename = ''invoice.pdf'', mimeType = ''application/pdf'', size_bytes = 4,
        buffer = [37, 80, 68, 70], isImage = False, isPdf = True\<rparr>]"
    by (simp add: fetched_acme downloaded_invoice)
  have d: "combined_doc example_env (acme_item [invoice_pdf])
             (fetched example_env (acme_item [invoice_pdf])) =
           [MetadataPage ''March Invoice''
              [(''From'', ''Billing <billing@acme.com>''), (''To'', ''me@example.org''),
               (''Date'', ''2024-03-15''), (''Entity'', ''Acme Corp'')]
              [\<lparr>row_filename = ''invoice.pdf'', row_size = 4,
                 row_badge = ''[PDF preview below]''\<rparr>],
            BodyPage ''Invoice attached.'',
            SplicedPage ''invoice.pdf'' 7]"
    unfolding f
    by (simp add: combined_doc_def base_doc_def listing_def badge_def
        example_first_page example_reloads example_strip
        acme_item_def or_else_def entity_or_unknown_def)
  have r: "map (raw_entry example_env (acme_item [invoice_pdf]))
          (fetched example_env (acme_item [invoice_pdf]))
        = [(''Acme_Corp/2024-03-15_invoice.pdf'', Raw [37, 80, 68, 70])]"
    by (simp add: fetched_acme raw_entry_invoice)
  have k: "json_field ''linkedAttachmentFile''
         (generateJsonRecord example_env (acme_item [invoice_pdf])
            (fetched example_env (acme_item [invoice_pdf]))) = None"
    by (simp add: generateJsonRecord_def)
  show ?thesis
    unfolding a download_loop_fetched
    by (simp add: unit_entries_def d r k acme_names count_key_def)
qed

section \<open>Entity matching (C5)\<close>

text \<open>
  C5, at an input where the code departs from it. The wildcard branch compares with
  \<^verbatim>\<open>endsWith\<close> on the address as it stands, so the pattern \<open>*@acme.com\<close> does not match
  the sender \<open>Billing@ACME.com\<close>; the literal branch lower-cases both sides, and the
  pattern \<open>billing@acme.com\<close> matches the same sender.
\<close>

theorem wildcard_is_case_sensitive:
  "match_entity [''e1''] [''e1'' \<mapsto> ''Acme Corp''] (acme_mappings ''*@acme.com'')
       (fromAddress ''Billing <Billing@ACME.com>'') = (None, None)
   \<and> match_entity [''e1''] [''e1'' \<mapsto> ''Acme Corp''] (acme_mappings ''billing@acme.com'')
       (fromAddress ''Billing <Billing@ACME.com>'') = (Some ''e1'', Some ''Acme Corp'')"
  by (simp add: acme_mappings_def fromAddress_def startsWith_def endsWith_def toLowerCase_def
      to_lower_char_def name_or_null_def Let_def char_eval)

section \<open>Failures during a build (C6, C10)\<close>






text \<open>
  C10. The download loop keeps exactly the attachments whose download succeeds, in the
  order of the request, each with its cleaned name, its MIME type and its bytes. When the
  item's entries are written, the attachment rows of the metadata page of the combined PDF
  and the \<open>attachments\<close> array of the combined JSON have one element for each of these
  attachments, in that order, with its name, MIME type and size, and the raw files that
  follow are their bytes; an attachment whose download threw is in none of them.
\<close>

theorem failed_downloads_left_out:
  "map fst (succeeded e it) =
     filter (\<lambda>att. download e (messageId it) (att_id att) (accountIndex it) \<noteq> None)
       (attachments it)
   \<and> list_all (\<lambda>(att, buf). download e (messageId it) (att_id att) (accountIndex it) = Some buf)
         (succeeded e it)
   \<and> download_loop e it (attachments it) [] =
       map (\<lambda>(att, buf).
              \<lparr>filename = attName it att, mimeType = att_mimeType att, size_bytes = length buf,
               buffer = buf, isImage = is_image_mime (att_mimeType att),
               isPdf = is_pdf_mime (att_mimeType att)\<rparr>)
         (succeeded e it)
   \<and> (bundle_item e fc it = Inr (fc', entries) \<longrightarrow>
        (\<exists>pdf_name json_name doc js raws.
           entries = [(pdf_name, Pdf doc), (json_name, Json js)] @ raws
           \<and> metadata_rows doc =
               map (\<lambda>(att, buf).
                      \<lparr>row_filename = attName it att, row_size = length buf,
                       row_badge =
                         (if is_image_mime (att_mimeType att) then ''[image preview below]''
                          else if is_pdf_mime (att_mimeType att) then ''[PDF preview below]''
                          else ''[separate file]'')\<rparr>)
                 (succeeded e it)
           \<and> json_field ''attachments'' js =
               Some (JArray
                 (map (\<lambda>(att, buf).
                         JObject
                           [(''filename'', JString (attName it att)),
                            (''mimeType'', JString (att_mimeType att)),
                            (''size'', JNumber (length buf)),
                            (''previewInCombinedPdf'',
                               JBool (is_image_mime (att_mimeType att)
                                      \<or> is_pdf_mime (att_mimeType att)))])
                    (succeeded e it)))
           \<and> map snd raws = map (\<lambda>(att, buf). Raw buf) (succeeded e it)))"
proof (intro conjI impI)
  show "map fst (succeeded e it) =
     filter (\<lambda>att. download e (messageId it) (att_id att) (accountIndex it) \<noteq> None)
       (attachments it)"
    unfolding succeeded_def by (rule map_filter_fst)
  show "list_all (\<lambda>(att, buf). download e (messageId it) (att_id att) (accountIndex it) = Some buf)
         (succeeded e it)"
    by (auto simp: list_all_iff succeeded_mem)
  show "download_loop e it (attachments it) [] =
       map (\<lambda>(att, buf).
              \<lparr>filename = attName it att, mimeType = att_mimeType att, size_bytes = length buf,
               buffer = buf, isImage = is_image_mime (att_mimeType att),
               isPdf = is_pdf_mime (att_mimeType att)\<rparr>)
         (succeeded e it)"
    by (simp add: download_loop_fetched fetched_def downloaded_def)
next
  assume r: "bundle_item e fc it = Inr (fc', entries)"
  then have b: "builds e it" by (simp add: bundle_item_result split: if_splits)
  then have en: "entries = unit_entries e fc it" using r by (simp add: bundle_item_result)
  have rows: "metadata_rows (combined_doc e it (fetched e it)) =
               map (\<lambda>(att, buf).
                      \<lparr>row_filename = attName it att, row_size = length buf,
                       row_badge =
                         (if is_image_mime (att_mimeType att) then ''[image preview below]''
                          else if is_pdf_mime (att_mimeType att) then ''[PDF preview below]''
                          else ''[separate file]'')\<rparr>)
                 (succeeded e it)"
    by (simp add: metadata_rows_combined_doc listing_def badge_def fetched_def downloaded_def
        case_prod_unfold)
  have arr: "json_field ''attachments'' (generateJsonRecord e it (fetched e it)) =
               Some (JArray
                 (map (\<lambda>(att, buf).
                         JObject
                           [(''filename'', JString (attName it att)),
                            (''mimeType'', JString (att_mimeType att)),
                            (''size'', JNumber (length buf)),
                            (''previewInCombinedPdf'',
                               JBool (is_image_mime (att_mimeType att)
                                      \<or> is_pdf_mime (att_mimeType att)))])
                    (succeeded e it)))"
    by (simp add: generateJsonRecord_def attachment_json_def fetched_def downloaded_def
        case_prod_unfold)
  have raws: "map snd (map (raw_entry e it) (fetched e it))
                = map (\<lambda>(att, buf). Raw buf) (succeeded e it)"
    by (simp add: raw_entry_def fetched_def downloaded_def case_prod_unfold Let_def)
  show "\<exists>pdf_name json_name doc js raws.
           entries = [(pdf_name, Pdf doc), (json_name, Json js)] @ raws
           \<and> metadata_rows doc =
               map (\<lambda>(att, buf).
                      \<lparr>row_filename = attName it att, row_size = length buf,
                       row_badge =
                         (if is_image_mime (att_mimeType att) then ''[image preview below]''
                          else if is_pdf_mime (att_mimeType att) then ''[PDF preview below]''
                          else ''[separate file]'')\<rparr>)
                 (succeeded e it)
           \<and> json_field ''attachments'' js =
               Some (JArray
                 (map (\<lambda>(att, buf).
                         JObject
                           [(''filename'', JString (attName it att)),
                            (''mimeType'', JString (att_mimeType att)),
                            (''size'', JNumber (length buf)),
                            (''previewInCombinedPdf'',
                               JBool (is_image_mime (att_mimeType att)
                                      \<or> is_pdf_mime (att_mimeType att)))])
                    (succeeded e it)))
           \<and> map snd raws = map (\<lambda>(att, buf). Raw buf) (succeeded e it)"
    unfolding en unit_entries_def using rows arr raws by blast
qed

theorem failed_downloads_left_out_witness:
  "download example_env ''m1'' (att_id scan_png) 1 = None
   \<and> (\<exists>fc2 pdf_name json_name doc js raws.
        bundle_item example_env Map.empty (acme_item [invoice_pdf, scan_png, broken_pdf])
          = Inr (fc2, [(pdf_name, Pdf doc), (json_name, Json js)] @ raws)
        \<and> metadata_rows doc =
            [\<lparr>row_filename = ''invoice.pdf'', row_size = 4,
               row_badge = ''[PDF preview below]''\<rparr>,
             \<lparr>row_filename = ''broken.pdf'', row_size = 1,
               row_badge = ''[PDF preview below]''\<rparr>]
        \<and> json_field ''attachments'' js =
            Some (JArray
              [JObject [(''filename'', JString ''invoice.pdf''),
                        (''mimeType'', JString ''application/pdf''),
                        (''size'', JNumber 4),
                        (''previewInCombinedPdf'', JBool True)],
               JObject [(''filename'', JString ''broken.pdf''),
                        (''mimeType'', JString ''application/pdf''),
                        (''size'', JNumber 1),
                        (''previewInCombinedPdf'', JBool True)]])
        \<and> map snd raws = [Raw [37, 80, 68, 70], Raw [0]])"
proof -
  let ?it = "acme_item [invoice_pdf, scan_png, broken_pdf]"
  have d3: "download example_env ''m1'' (att_id scan_png) 1 = None" by (rule example_downloads)
  have run: "bundle_item example_env Map.empty ?it
      = Inr (counters_after example_env Map.empty [?it], unit_entries example_env Map.empty ?it)"
    by (simp add: bundle_item_result builds_acme)
  have n1: "attName ?it invoice_pdf = ''invoice.pdf''"
    using downloaded_invoice[of "[invoice_pdf, scan_png, broken_pdf]" "[]"]
    by (simp add: downloaded_def)
  have n4: "attName ?it broken_pdf = ''broken.pdf''"
    using downloaded_broken[of "[invoice_pdf, scan_png, broken_pdf]" "[]"]
    by (simp add: downloaded_def)
  have m1: "att_mimeType invoice_pdf = ''application/pdf''" by (simp add: invoice_pdf_def)
  have m4: "att_mimeType broken_pdf = ''application/pdf''" by (simp add: broken_pdf_def)
  from failed_downloads_left_out[of example_env ?it Map.empty
      "counters_after example_env Map.empty [?it]" "unit_entries example_env Map.empty ?it"] run
  obtain pdf_name json_name doc js raws where
    en: "unit_entries example_env Map.empty ?it = [(pdf_name, Pdf doc), (json_name, Json js)] @ raws"
    and rows: "metadata_rows doc =
               map (\<lambda>(att, buf).
                      \<lparr>row_filename = attName ?it att, row_size = length buf,
                       row_badge =
                         (if is_image_mime (att_mimeType att) then ''[image preview below]''
                          else if is_pdf_mime (att_mimeType att) then ''[PDF preview below]''
                          else ''[separate file]'')\<rparr>)
                 (succeeded example_env ?it)"
    and arr: "json_field ''attachments'' js =
               Some (JArray
                 (map (\<lambda>(att, buf).
                         JObject
                           [(''filename'', JString (attName ?it att)),
                            (''mimeType'', JString (att_mimeType att)),
                            (''size'', JNumber (length buf)),
                            (''previewInCombinedPdf'',
                               JBool (is_image_mime (att_mimeType att)
                                      \<or> is_pdf_mime (att_mimeType att)))])
                    (succeeded example_env ?it)))"
    and raws: "map snd raws = map (\<lambda>(att, buf). Raw buf) (succeeded example_env ?it)"
    by blast
  have rows': "metadata_rows doc =
            [\<lparr>row_filename = ''invoice.pdf'', row_size = 4,
               row_badge = ''[PDF preview below]''\<rparr>,
             \<lparr>row_filename = ''broken.pdf'', row_size = 1,
               row_badge = ''[PDF preview below]''\<rparr>]"
    using rows by (simp add: succeeded_acme n1 n4 example_mimes)
  have arr': "json_field ''attachments'' js =
            Some (JArray
              [JObject [(''filename'', JString ''invoice.pdf''),
                        (''mimeType'', JString ''application/pdf''),
                        (''size'', JNumber 4),
                        (''previewInCombinedPdf'', JBool True)],
               JObject [(''filename'', JString ''broken.pdf''),
                        (''mimeType'', JString ''application/pdf''),
                        (''size'', JNumber 1),
                        (''previewInCombinedPdf'', JBool True)]])"
    using arr by (simp add: succeeded_acme n1 n4 m1 m4 mime_eval)
  have raws': "map snd raws = [Raw [37, 80, 68, 70], Raw [0]]"
    using raws by (simp add: succeeded_acme)
  have run': "bundle_item example_env Map.empty ?it
      = Inr (counters_after example_env Map.empty [?it],
             [(pdf_name, Pdf doc), (json_name, Json js)] @ raws)"
    using run en by simp
  show ?thesis
  proof (intro conjI exI)
    show "download example_env ''m1'' (att_id scan_png) 1 = None" by (rule d3)
    show "bundle_item example_env Map.empty ?it
      = Inr (counters_after example_env Map.empty [?it],
             [(pdf_name, Pdf doc), (json_name, Json js)] @ raws)"
      by (rule run')
  qed (rule rows' arr' raws')+
qed

section \<open>Dates (C7)\<close>

text \<open>
  C7, at an input where the code departs from it. \<^verbatim>\<open>new Date\<close> does not throw on a string
  it cannot parse, so the \<^verbatim>\<open>catch\<close> block with the sentinel \<open>unknown-date\<close> is not
  reached: the getters of the Invalid Date return \<^verbatim>\<open>NaN\<close> and the prefix is
  \<open>NaN-NaN-NaN\<close>.
\<close>

theorem formatDatePrefix_unparsable:
  "formatDatePrefix (\<lambda>s. InvalidDate) ''not a date'' = ''NaN-NaN-NaN''
   \<and> formatDatePrefix (\<lambda>s. InvalidDate) ''not a date'' \<noteq> ''unknown-date''"
  by (simp add: formatDatePrefix_def new_Date_def padStart_def)

section \<open>Attachment names (C9)\<close>

text \<open>
  C9, as the code has it. For a file name that \<^verbatim>\<open>isGenericFilename\<close> accepts and an item
  with a non-empty subject, the attachment's name is the first 60 characters of the
  sanitized subject plus the extension of the file name; this is the whole sanitized
  subject when that has at most 60 characters. For a file name that is not generic the
  name is the file name, unchanged. \<open>inline_1.pdf\<close>, \<open>attachment.pdf\<close> and \<open>noname.jpg\<close>
  are generic, \<open>invoice-march.pdf\<close> is not.
\<close>

theorem attName_cases:
  "(isGenericFilename (att_filename att) \<and> subject it \<noteq> [] \<longrightarrow>
      attName it att = take 60 (sanitizeFolderName (subject it)) @ dot_ext (att_filename att))
   \<and> (isGenericFilename (att_filename att) \<and> subject it \<noteq> []
        \<and> length (sanitizeFolderName (subject it)) \<le> 60 \<longrightarrow>
      attName it att = sanitizeFolderName (subject it) @ dot_ext (att_filename att))
   \<and> (\<not> isGenericFilename (att_filename att) \<longrightarrow> attName it att = att_filename att)
   \<and> isGenericFilename ''inline_1.pdf'' \<and> isGenericFilename ''attachment.pdf''
   \<and> isGenericFilename ''noname.jpg'' \<and> \<not> isGenericFilename ''invoice-march.pdf''"
  using generic_examples by (simp add: attName_def)

theorem attName_cases_witness:
  "isGenericFilename (att_filename inline_pdf) \<and> subject (acme_item [inline_pdf]) \<noteq> []
   \<and> length (sanitizeFolderName (subject (acme_item [inline_pdf]))) \<le> 60
   \<and> attName (acme_item [inline_pdf]) inline_pdf = ''March_Invoice.pdf''
   \<and> \<not> isGenericFilename (att_filename invoice_pdf)
   \<and> attName (acme_item [invoice_pdf]) invoice_pdf = ''invoice.pdf''"
proof -
  have a: "isGenericFilename (att_filename inline_pdf)"
    by (simp add: inline_pdf_def generic_examples)
  have b: "subject (acme_item [inline_pdf]) \<noteq> []" by (simp add: acme_item_def)
  have c: "sanitizeFolderName (subject (acme_item [inline_pdf])) = ''March_Invoice''"
    by (simp add: acme_item_def sanitize_March_Invoice)
  have d: "dot_ext (att_filename inline_pdf) = ''.pdf''"
    by (simp add: inline_pdf_def dot_ext_def after_last_dot_def)
  have e: "\<not> isGenericFilename (att_filename invoice_pdf)"
    by (simp add: invoice_pdf_def generic_examples)
  have f: "att_filename invoice_pdf = ''invoice.pdf''" by (simp add: invoice_pdf_def)
  show ?thesis
    using a b c d e f attName_cases[of inline_pdf "acme_item [inline_pdf]"]
      attName_cases[of invoice_pdf "acme_item [invoice_pdf]"]
    by simp
qed

text \<open>
  C9 as stated fails: for the generic name \<open>inline_1.pdf\<close> and a subject of 61 letters the
  attachment's name has 60 letters before \<open>.pdf\<close>; the sanitized subject has 61.
\<close>

theorem attName_cut_at_60:
  "isGenericFilename (att_filename inline_pdf) \<and> subject long_subject_item \<noteq> []
   \<and> attName long_subject_item inline_pdf
       \<noteq> sanitizeFolderName (subject long_subject_item) @ dot_ext (att_filename inline_pdf)
   \<and> attName long_subject_item inline_pdf = replicate 60 (CHR ''a'') @ ''.pdf''"
  by code_simp

end
